theory Spec2Isabelle
  imports Main
begin

section \<open>Storage and the default allocator\<close>

text \<open>
  The container keeps raw pointers into storage it obtains from its allocator. A pointer
  is null or names a block and a slot of it; pointer arithmetic stays inside the block.
  The heap is the state behind the default allocator \<^verbatim>\<open>std::allocator<T>\<close>: every block
  handed out so far (a slot holds \<open>Some v\<close> when an element is constructed there and
  \<open>None\<close> when it is raw storage), the number of slots that can still be obtained, and
  the trace of the storage events in the order they happened. Block identifiers are
  never reused. The allocator is stateless, so the member \<^verbatim>\<open>m_allocator\<close> carries no data
  and the heap stands for it.
\<close>

datatype pointer = Null | Addr nat nat

datatype event =
    Allocate nat nat
  | Deallocate nat nat
  | Deallocate_null nat
  | Construct nat nat
  | Destroy nat nat

datatype 'a block = Block "'a option list" | Released

record 'a heap =
  blocks :: "'a block list"
  budget :: nat
  trace :: "event list"

text \<open>
  \<open>Out_of_storage\<close> is the exception \<^verbatim>\<open>std::bad_alloc\<close>; it carries the state in which it
  was thrown, which is the state its catcher finds. The others are undefined behaviour:
  a null, released or foreign pointer, a slot past the end of its block, a slot that
  holds no object where one is read, assigned or destroyed, an overflow of the signed
  \<^verbatim>\<open>difference_type\<close>, and control that reaches the end of a function that has to
  return a value.
\<close>

datatype 's error =
    Out_of_storage 's
  | Bad_pointer
  | Out_of_bounds
  | No_object
  | Signed_overflow
  | No_return

definition cells :: "'a heap \<Rightarrow> nat \<Rightarrow> 'a option list option" where
  "cells h b =
     (if b < length (blocks h)
      then (case blocks h ! b of Block cs \<Rightarrow> Some cs | Released \<Rightarrow> None)
      else None)"

definition slot :: "'a heap \<Rightarrow> pointer \<Rightarrow> 'a heap error + (nat \<times> nat \<times> 'a option list)" where
  "slot h p =
     (case p of
        Null \<Rightarrow> Inl Bad_pointer
      | Addr b i \<Rightarrow>
          (case cells h b of
             None \<Rightarrow> Inl Bad_pointer
           | Some cs \<Rightarrow> if i < length cs then Inr (b, i, cs) else Inl Out_of_bounds))"

text \<open>How far a pointer can still advance inside its block: what bounds the loops below.\<close>

definition slots_left :: "'a heap \<Rightarrow> pointer \<Rightarrow> nat" where
  "slots_left h p =
     (case p of
        Null \<Rightarrow> 0
      | Addr b i \<Rightarrow> (case cells h b of None \<Rightarrow> 0 | Some cs \<Rightarrow> length cs - i))"

text \<open>
  \<^verbatim>\<open>allocate(n)\<close> hands out a fresh block of \<open>n\<close> raw slots, or throws when fewer than
  \<open>n\<close> slots are left. \<^verbatim>\<open>deallocate(p, n)\<close> releases the block that \<open>p\<close> is the start of
  and records the count \<open>n\<close> it was given, whether or not that is the count the block was
  allocated with. On the null pointer \<^verbatim>\<open>std::allocator\<close> releases nothing, as
  \<^verbatim>\<open>operator delete\<close> does; the call and its count are recorded all the same.
\<close>

definition allocate :: "nat \<Rightarrow> 'a heap \<Rightarrow> 'a heap error + ('a heap \<times> pointer)" where
  "allocate n h =
     (if n \<le> budget h
      then Inr (h\<lparr>blocks := blocks h @ [Block (replicate n None)],
                 budget := budget h - n,
                 trace := trace h @ [Allocate (length (blocks h)) n]\<rparr>,
               Addr (length (blocks h)) 0)
      else Inl (Out_of_storage h))"

fun deallocate :: "pointer \<Rightarrow> nat \<Rightarrow> 'a heap \<Rightarrow> 'a heap error + 'a heap" where
  "deallocate Null n h = Inr (h\<lparr>trace := trace h @ [Deallocate_null n]\<rparr>)"
| "deallocate (Addr b i) n h =
     (case cells h b of
        None \<Rightarrow> Inl Bad_pointer
      | Some cs \<Rightarrow>
          if i = 0
          then Inr (h\<lparr>blocks := (blocks h)[b := Released],
                     budget := budget h + length cs,
                     trace := trace h @ [Deallocate b n]\<rparr>)
          else Inl Bad_pointer)"

definition construct :: "pointer \<Rightarrow> 'a \<Rightarrow> 'a heap \<Rightarrow> 'a heap error + 'a heap" where
  "construct p v h =
     (case slot h p of
        Inl e \<Rightarrow> Inl e
      | Inr (b, i, cs) \<Rightarrow>
          Inr (h\<lparr>blocks := (blocks h)[b := Block (cs[i := Some v])],
                 trace := trace h @ [Construct b i]\<rparr>))"

definition destroy :: "pointer \<Rightarrow> 'a heap \<Rightarrow> 'a heap error + 'a heap" where
  "destroy p h =
     (case slot h p of
        Inl e \<Rightarrow> Inl e
      | Inr (b, i, cs) \<Rightarrow>
          (case cs ! i of
             None \<Rightarrow> Inl No_object
           | Some v \<Rightarrow>
               Inr (h\<lparr>blocks := (blocks h)[b := Block (cs[i := None])],
                      trace := trace h @ [Destroy b i]\<rparr>)))"

text \<open>Reading \<^verbatim>\<open>*p\<close> and assigning \<^verbatim>\<open>*p = v\<close> need a constructed element at \<open>p\<close>.\<close>

definition read :: "pointer \<Rightarrow> 'a heap \<Rightarrow> 'a heap error + 'a" where
  "read p h =
     (case slot h p of
        Inl e \<Rightarrow> Inl e
      | Inr (b, i, cs) \<Rightarrow> (case cs ! i of None \<Rightarrow> Inl No_object | Some v \<Rightarrow> Inr v))"

definition assign :: "pointer \<Rightarrow> 'a \<Rightarrow> 'a heap \<Rightarrow> 'a heap error + 'a heap" where
  "assign p v h =
     (case slot h p of
        Inl e \<Rightarrow> Inl e
      | Inr (b, i, cs) \<Rightarrow>
          (case cs ! i of
             None \<Rightarrow> Inl No_object
           | Some w \<Rightarrow> Inr (h\<lparr>blocks := (blocks h)[b := Block (cs[i := Some v])]\<rparr>)))"

text \<open>
  \<^verbatim>\<open>p + k\<close> and \<^verbatim>\<open>p - k\<close>. The one subtraction in the source, \<^verbatim>\<open>first + size() - new_size\<close>
  in \<^verbatim>\<open>resize\<close>, is reached only with \<^verbatim>\<open>new_size \<le> size()\<close>.
\<close>

fun ptr_add :: "pointer \<Rightarrow> nat \<Rightarrow> pointer" where
  "ptr_add Null k = Null"
| "ptr_add (Addr b i) k = Addr b (i + k)"

fun ptr_sub :: "pointer \<Rightarrow> nat \<Rightarrow> pointer" where
  "ptr_sub Null k = Null"
| "ptr_sub (Addr b i) k = Addr b (i - k)"

text \<open>
  \<^verbatim>\<open>last - first\<close>, converted to \<^verbatim>\<open>size_type\<close>: defined for two null pointers and for two
  pointers into one block with \<open>first\<close> not after \<open>last\<close>, and \<open>None\<close> where it is
  undefined behaviour, which the callers report as \<open>Bad_pointer\<close>.
\<close>

fun ptr_diff :: "pointer \<Rightarrow> pointer \<Rightarrow> nat option" where
  "ptr_diff Null Null = Some 0"
| "ptr_diff (Addr b j) (Addr a i) = (if a = b \<and> i \<le> j then Some (j - i) else None)"
| "ptr_diff Null (Addr a i) = None"
| "ptr_diff (Addr b j) Null = None"

text \<open>
  \<^verbatim>\<open>size_type\<close> is 64 bits wide and unsigned: a size is a natural number below \<open>2 ^ 64\<close>,
  and doubling it wraps around. \<^verbatim>\<open>difference_type\<close> is 64 bits wide and signed: doubling a
  distance must not overflow.
\<close>

definition twice :: "nat \<Rightarrow> nat" where
  "twice n = (n * 2) mod 2 ^ 64"

definition twice_distance :: "nat \<Rightarrow> nat option" where
  "twice_distance d = (if d * 2 < 2 ^ 63 then Some (d * 2) else None)"

section \<open>The algorithms of the standard library the container calls\<close>

function uninitialized_fill :: "pointer \<Rightarrow> pointer \<Rightarrow> 'a \<Rightarrow> 'a heap \<Rightarrow> 'a heap error + 'a heap" where
  "uninitialized_fill p q v h =
     (if p = q then Inr h
      else (case construct p v h of
              Inl e \<Rightarrow> Inl e
            | Inr h1 \<Rightarrow> uninitialized_fill (ptr_add p 1) q v h1))"
  by pat_completeness auto
termination
  apply (relation "measure (\<lambda>(p, q, v, h). slots_left h p)")
   apply simp
  apply (auto simp: slot_def construct_def slots_left_def cells_def nth_list_update
           split: pointer.splits option.splits sum.splits if_splits block.splits)
  apply (arith+)?
  done

primrec uninitialized_fill_n :: "pointer \<Rightarrow> nat \<Rightarrow> 'a \<Rightarrow> 'a heap \<Rightarrow> 'a heap error + 'a heap" where
  "uninitialized_fill_n p 0 v h = Inr h"
| "uninitialized_fill_n p (Suc n) v h =
     (case construct p v h of
        Inl e \<Rightarrow> Inl e
      | Inr h1 \<Rightarrow> uninitialized_fill_n (ptr_add p 1) n v h1)"

text \<open>
  \<^verbatim>\<open>uninitialized_copy\<close> over a range that is not in the heap (the caller's iterators, an
  initializer list): the values it yields, in order. It returns the end of the copy.
\<close>

primrec uninitialized_copy_values ::
  "'a list \<Rightarrow> pointer \<Rightarrow> 'a heap \<Rightarrow> 'a heap error + ('a heap \<times> pointer)" where
  "uninitialized_copy_values [] d h = Inr (h, d)"
| "uninitialized_copy_values (x # xs) d h =
     (case construct d x h of
        Inl e \<Rightarrow> Inl e
      | Inr h1 \<Rightarrow> uninitialized_copy_values xs (ptr_add d 1) h1)"

text \<open>\<^verbatim>\<open>uninitialized_copy\<close> over a range of pointers, as the copy constructor calls it.\<close>

function uninitialized_copy ::
  "pointer \<Rightarrow> pointer \<Rightarrow> pointer \<Rightarrow> 'a heap \<Rightarrow> 'a heap error + ('a heap \<times> pointer)" where
  "uninitialized_copy p q d h =
     (if p = q then Inr (h, d)
      else (case read p h of
              Inl e \<Rightarrow> Inl e
            | Inr x \<Rightarrow>
                (case construct d x h of
                   Inl e \<Rightarrow> Inl e
                 | Inr h1 \<Rightarrow> uninitialized_copy (ptr_add p 1) q (ptr_add d 1) h1)))"
  by pat_completeness auto
termination
  apply (relation "measure (\<lambda>(p, q, d, h). slots_left h p)")
   apply simp
  apply (auto simp: slot_def read_def construct_def slots_left_def cells_def nth_list_update
           split: pointer.splits option.splits sum.splits if_splits block.splits)
  apply (arith+)?
  done

primrec uninitialized_copy_n ::
  "pointer \<Rightarrow> nat \<Rightarrow> pointer \<Rightarrow> 'a heap \<Rightarrow> 'a heap error + ('a heap \<times> pointer)" where
  "uninitialized_copy_n p 0 d h = Inr (h, d)"
| "uninitialized_copy_n p (Suc n) d h =
     (case read p h of
        Inl e \<Rightarrow> Inl e
      | Inr x \<Rightarrow>
          (case construct d x h of
             Inl e \<Rightarrow> Inl e
           | Inr h1 \<Rightarrow> uninitialized_copy_n (ptr_add p 1) n (ptr_add d 1) h1))"

text \<open>\<^verbatim>\<open>std::copy\<close> assigns to elements that are already constructed.\<close>

function copy ::
  "pointer \<Rightarrow> pointer \<Rightarrow> pointer \<Rightarrow> 'a heap \<Rightarrow> 'a heap error + ('a heap \<times> pointer)" where
  "copy p q d h =
     (if p = q then Inr (h, d)
      else (case read p h of
              Inl e \<Rightarrow> Inl e
            | Inr x \<Rightarrow>
                (case assign d x h of
                   Inl e \<Rightarrow> Inl e
                 | Inr h1 \<Rightarrow> copy (ptr_add p 1) q (ptr_add d 1) h1)))"
  by pat_completeness auto
termination
  apply (relation "measure (\<lambda>(p, q, d, h). slots_left h p)")
   apply simp
  apply (auto simp: slot_def read_def assign_def slots_left_def cells_def nth_list_update
           split: pointer.splits option.splits sum.splits if_splits block.splits)
  apply (arith+)?
  done

section \<open>The container\<close>

text \<open>
  The element type \<open>T\<close> is not an array type. Every member that constructs an element
  does so with \<^verbatim>\<open>std::uninitialized_fill\<close> or \<^verbatim>\<open>std::uninitialized_copy\<close>, which construct a
  \<open>T\<close> from a \<open>T\<close>; an array cannot be constructed from an array, so a container of
  arrays never holds an element, and the overload of \<^verbatim>\<open>destroy_range\<close> for arrays is left
  out.
\<close>

record expandable_array =
  m_first :: pointer
  m_second :: pointer
  m_capacity :: nat

definition default_capacity :: nat where
  "default_capacity = 4"

text \<open>The overload of \<^verbatim>\<open>destroy_range\<close> for element types that are not arrays.\<close>

function destroy_range :: "pointer \<Rightarrow> pointer \<Rightarrow> 'a heap \<Rightarrow> 'a heap error + 'a heap" where
  "destroy_range p q h =
     (if p = q then Inr h
      else (case destroy p h of
              Inl e \<Rightarrow> Inl e
            | Inr h1 \<Rightarrow> destroy_range (ptr_add p 1) q h1))"
  by pat_completeness auto
termination
  apply (relation "measure (\<lambda>(p, q, h). slots_left h p)")
   apply simp
  apply (auto simp: slot_def destroy_def slots_left_def cells_def nth_list_update
           split: pointer.splits option.splits sum.splits if_splits block.splits)
  apply (arith+)?
  done

definition destroy_all :: "expandable_array \<Rightarrow> 'a heap \<Rightarrow> 'a heap error + 'a heap" where
  "destroy_all c h = destroy_range (m_first c) (m_second c) h"

definition size_c :: "expandable_array \<Rightarrow> nat option" where
  "size_c c = ptr_diff (m_second c) (m_first c)"

text \<open>
  A member function runs on the heap and the container it is called on. What it throws
  leaves it with the container as it is at that moment.
\<close>

definition thrown_in :: "expandable_array \<Rightarrow> 'a heap error \<Rightarrow> ('a heap \<times> expandable_array) error" where
  "thrown_in c e = map_error (\<lambda>h. (h, c)) e"

subsection \<open>Constructors and the destructor\<close>

definition default_ctor :: "'a heap \<Rightarrow> 'a heap error + ('a heap \<times> expandable_array)" where
  "default_ctor h =
     (case allocate default_capacity h of
        Inl e \<Rightarrow> Inl e
      | Inr (h1, p) \<Rightarrow>
          Inr (h1, \<lparr>m_first = p, m_second = p, m_capacity = default_capacity\<rparr>))"

definition sized_ctor :: "nat \<Rightarrow> 'a \<Rightarrow> 'a heap \<Rightarrow> 'a heap error + ('a heap \<times> expandable_array)" where
  "sized_ctor n v h =
     (case allocate (twice n) h of
        Inl e \<Rightarrow> Inl e
      | Inr (h1, p) \<Rightarrow>
          (case uninitialized_fill p (ptr_add p n) v h1 of
             Inl e \<Rightarrow> Inl e
           | Inr h2 \<Rightarrow>
               Inr (h2, \<lparr>m_first = p, m_second = ptr_add p n, m_capacity = twice n\<rparr>)))"

text \<open>
  The range constructor, for a range of the caller's that yields the values \<open>xs\<close>:
  \<^verbatim>\<open>std::distance(begin, end)\<close> is \<open>length xs\<close>. The constructor walks the range three
  times, twice for the distance and once for the copy, so the range is one that can be
  walked again.
\<close>

definition range_ctor :: "'a list \<Rightarrow> 'a heap \<Rightarrow> 'a heap error + ('a heap \<times> expandable_array)" where
  "range_ctor xs h =
     (case twice_distance (length xs) of
        None \<Rightarrow> Inl Signed_overflow
      | Some n2 \<Rightarrow>
          (case allocate n2 h of
             Inl e \<Rightarrow> Inl e
           | Inr (h1, p) \<Rightarrow>
               (case uninitialized_copy_values xs p h1 of
                  Inl e \<Rightarrow> Inl e
                | Inr (h2, q) \<Rightarrow>
                    Inr (h2, \<lparr>m_first = p, m_second = q, m_capacity = length xs\<rparr>))))"

text \<open>The same constructor on a range of pointers, which is how the copy constructor calls it.\<close>

definition range_ctor_ptr ::
  "pointer \<Rightarrow> pointer \<Rightarrow> 'a heap \<Rightarrow> 'a heap error + ('a heap \<times> expandable_array)" where
  "range_ctor_ptr first lst h =
     (case ptr_diff lst first of
        None \<Rightarrow> Inl Bad_pointer
      | Some d \<Rightarrow>
          (case twice_distance d of
             None \<Rightarrow> Inl Signed_overflow
           | Some n2 \<Rightarrow>
               (case allocate n2 h of
                  Inl e \<Rightarrow> Inl e
                | Inr (h1, p) \<Rightarrow>
                    (case uninitialized_copy first lst p h1 of
                       Inl e \<Rightarrow> Inl e
                     | Inr (h2, q) \<Rightarrow>
                         Inr (h2, \<lparr>m_first = p, m_second = q, m_capacity = d\<rparr>)))))"

definition copy_ctor :: "expandable_array \<Rightarrow> 'a heap \<Rightarrow> 'a heap error + ('a heap \<times> expandable_array)" where
  "copy_ctor right h = range_ctor_ptr (m_first right) (m_second right) h"

text \<open>The move constructor returns the new container and what is left of \<open>right\<close>.\<close>

definition move_ctor :: "expandable_array \<Rightarrow> expandable_array \<times> expandable_array" where
  "move_ctor right =
     (\<lparr>m_first = m_first right, m_second = m_second right, m_capacity = m_capacity right\<rparr>,
      right\<lparr>m_first := Null, m_second := Null\<rparr>)"

definition init_list_ctor :: "'a list \<Rightarrow> 'a heap \<Rightarrow> 'a heap error + ('a heap \<times> expandable_array)" where
  "init_list_ctor xs h =
     (case allocate (twice (length xs)) h of
        Inl e \<Rightarrow> Inl e
      | Inr (h1, p) \<Rightarrow>
          (case uninitialized_copy_values xs p h1 of
             Inl e \<Rightarrow> Inl e
           | Inr (h2, q) \<Rightarrow>
               Inr (h2, \<lparr>m_first = p, m_second = q, m_capacity = twice (length xs)\<rparr>)))"

text \<open>
  The destructor does not call \<^verbatim>\<open>destroy_range\<close>: it has a loop of its own, which is the
  same loop.
\<close>

definition destructor :: "'a heap \<Rightarrow> expandable_array \<Rightarrow> 'a heap error + 'a heap" where
  "destructor h c =
     (case destroy_range (m_first c) (m_second c) h of
        Inl e \<Rightarrow> Inl e
      | Inr h1 \<Rightarrow> deallocate (m_first c) (m_capacity c) h1)"

subsection \<open>reserve and resize\<close>

definition reserve ::
  "nat \<Rightarrow> 'a heap \<Rightarrow> expandable_array \<Rightarrow>
     ('a heap \<times> expandable_array) error + ('a heap \<times> expandable_array)" where
  "reserve new_capacity h c =
     (case allocate new_capacity h of
        Inl e \<Rightarrow> Inl (thrown_in c e)
      | Inr (h1, p) \<Rightarrow>
          (case size_c c of
             None \<Rightarrow> Inl Bad_pointer
           | Some s \<Rightarrow>
               (case uninitialized_copy_n (m_first c) (min s new_capacity) p h1 of
                  Inl e \<Rightarrow> Inl (thrown_in c e)
                | Inr (h2, q) \<Rightarrow>
                    (case destroy_all c h2 of
                       Inl e \<Rightarrow> Inl (thrown_in c e)
                     | Inr h3 \<Rightarrow>
                         (case deallocate (m_first c) (m_capacity c) h3 of
                            Inl e \<Rightarrow> Inl (thrown_in c e)
                          | Inr h4 \<Rightarrow>
                              Inr (h4, \<lparr>m_first = p, m_second = q,
                                         m_capacity = new_capacity\<rparr>))))))"

definition resize ::
  "nat \<Rightarrow> 'a \<Rightarrow> 'a heap \<Rightarrow> expandable_array \<Rightarrow>
     ('a heap \<times> expandable_array) error + ('a heap \<times> expandable_array)" where
  "resize new_size v h c =
     (case reserve (twice new_size) h c of
        Inl e \<Rightarrow> Inl e
      | Inr (h1, c1) \<Rightarrow>
          (case size_c c1 of
             None \<Rightarrow> Inl Bad_pointer
           | Some s \<Rightarrow>
               if new_size > s
               then (case uninitialized_fill_n (ptr_add (m_first c1) s) (new_size - s) v h1 of
                       Inl e \<Rightarrow> Inl (thrown_in c1 e)
                     | Inr h2 \<Rightarrow> Inr (h2, c1))
               else (case destroy_range (ptr_sub (ptr_add (m_first c1) s) new_size)
                            (m_second c1) h1 of
                       Inl e \<Rightarrow> Inl (thrown_in c1 e)
                     | Inr h2 \<Rightarrow> Inr (h2, c1))))"

subsection \<open>Assignment\<close>

text \<open>
  Both assignment operators are declared to return \<^verbatim>\<open>ExpandableArray&\<close> and have no return
  statement: control reaches the closing brace, which is undefined behaviour on every
  call. Each is modelled as its statements, the body, followed by that end.

  Copy assignment calls \<^verbatim>\<open>resize(right.size())\<close>, whose second argument defaults to
  \<^verbatim>\<open>value_type{}\<close>: the parameter \<open>dflt\<close>.
\<close>

definition copy_assign_body ::
  "'a \<Rightarrow> expandable_array \<Rightarrow> 'a heap \<Rightarrow> expandable_array \<Rightarrow>
     ('a heap \<times> expandable_array) error + ('a heap \<times> expandable_array)" where
  "copy_assign_body dflt right h c =
     (case size_c right of
        None \<Rightarrow> Inl Bad_pointer
      | Some sr \<Rightarrow>
          (case size_c c of
             None \<Rightarrow> Inl Bad_pointer
           | Some s \<Rightarrow>
               (case (if sr > s then resize sr dflt h c else Inr (h, c)) of
                  Inl e \<Rightarrow> Inl e
                | Inr (h1, c1) \<Rightarrow>
                    (case copy (m_first right) (m_second right) (m_first c1) h1 of
                       Inl e \<Rightarrow> Inl (thrown_in c1 e)
                     | Inr (h2, q) \<Rightarrow> Inr (h2, c1\<lparr>m_second := q\<rparr>)))))"

definition copy_assign ::
  "'a \<Rightarrow> expandable_array \<Rightarrow> 'a heap \<Rightarrow> expandable_array \<Rightarrow>
     ('a heap \<times> expandable_array) error + ('a heap \<times> expandable_array)" where
  "copy_assign dflt right h c =
     (case copy_assign_body dflt right h c of
        Inl e \<Rightarrow> Inl e
      | Inr (h2, c2) \<Rightarrow> Inl No_return)"

text \<open>
  The body of move assignment, for a \<open>right\<close> that is another container than the one
  assigned to: the container assigned to and what is left of \<open>right\<close>.
\<close>

definition move_assign_body :: "expandable_array \<Rightarrow> expandable_array \<Rightarrow> expandable_array \<times> expandable_array" where
  "move_assign_body right c =
     (c\<lparr>m_first := m_first right, m_second := m_second right, m_capacity := m_capacity right\<rparr>,
      right\<lparr>m_first := Null, m_second := Null\<rparr>)"

definition move_assign ::
  "expandable_array \<Rightarrow> expandable_array \<Rightarrow>
     (expandable_array \<times> expandable_array) error + (expandable_array \<times> expandable_array)" where
  "move_assign right c =
     (case move_assign_body right c of
        (c2, right2) \<Rightarrow> Inl No_return)"

section \<open>What a container holds\<close>

text \<open>
  The elements a reader finds walking from \<^verbatim>\<open>m_array.first\<close> to \<^verbatim>\<open>m_array.second\<close>: the
  source has no accessor, so this is how the properties below observe a container.
  \<open>None\<close> when the two pointers do not bound a range of constructed elements of one
  live block.
\<close>

definition elements :: "'a heap \<Rightarrow> expandable_array \<Rightarrow> 'a list option" where
  "elements h c =
     (case m_first c of
        Null \<Rightarrow> (case m_second c of Null \<Rightarrow> Some [] | Addr b' j \<Rightarrow> None)
      | Addr b i \<Rightarrow>
          (case m_second c of
             Null \<Rightarrow> None
           | Addr b' j \<Rightarrow>
               if b' = b \<and> i \<le> j
               then (case cells h b of
                       None \<Rightarrow> None
                     | Some cs \<Rightarrow>
                         if j \<le> length cs then those (take (j - i) (drop i cs)) else None)
               else None))"

text \<open>
  The valid state: the container owns a block, \<^verbatim>\<open>m_array.first\<close> is its start, and its
  live elements are \<open>es\<close>.
\<close>

definition holds :: "'a heap \<Rightarrow> expandable_array \<Rightarrow> 'a list \<Rightarrow> bool" where
  "holds h c es =
     (case m_first c of
        Null \<Rightarrow> False
      | Addr b i \<Rightarrow> i = 0 \<and> elements h c = Some es)"

text \<open>
  \<^verbatim>\<open>begin \<le> end \<le> begin + capacity\<close> for a container that has not been moved from:
  \<^verbatim>\<open>size()\<close> is defined and at most the capacity.
\<close>

definition invariant :: "expandable_array \<Rightarrow> bool" where
  "invariant c =
     (case size_c c of
        None \<Rightarrow> False
      | Some s \<Rightarrow> m_first c \<noteq> Null \<and> s \<le> m_capacity c)"

text \<open>The number of slots of a block that has not been released.\<close>

definition slots :: "'a heap \<Rightarrow> nat \<Rightarrow> nat option" where
  "slots h b = map_option length (cells h b)"

section \<open>Facts about the storage operations\<close>

declare uninitialized_fill.simps [simp del]
declare uninitialized_copy.simps [simp del]
declare copy.simps [simp del]
declare destroy_range.simps [simp del]

lemma cells_SomeD: "cells h b = Some cs \<Longrightarrow> b < length (blocks h) \<and> blocks h ! b = Block cs"
  by (auto simp: cells_def split: if_splits block.splits)

lemma blocks_update_id:
  "cells h b = Some cs \<Longrightarrow> h\<lparr>blocks := (blocks h)[b := Block cs]\<rparr> = h"
proof -
  assume "cells h b = Some cs"
  then have "blocks h ! b = Block cs" by (simp add: cells_SomeD)
  then have "(blocks h)[b := Block cs] = blocks h" by (metis list_update_id)
  then show ?thesis by simp
qed

lemma construct_ok:
  "cells h b = Some cs \<Longrightarrow> i < length cs \<Longrightarrow>
   construct (Addr b i) v h =
     Inr (h\<lparr>blocks := (blocks h)[b := Block (cs[i := Some v])],
            trace := trace h @ [Construct b i]\<rparr>)"
  by (simp add: construct_def slot_def)

lemma destroy_ok:
  "cells h b = Some cs \<Longrightarrow> i < length cs \<Longrightarrow> cs ! i = Some v \<Longrightarrow>
   destroy (Addr b i) h =
     Inr (h\<lparr>blocks := (blocks h)[b := Block (cs[i := None])],
            trace := trace h @ [Destroy b i]\<rparr>)"
  by (simp add: destroy_def slot_def)

lemma read_ok:
  "cells h b = Some cs \<Longrightarrow> i < length cs \<Longrightarrow> cs ! i = Some v \<Longrightarrow> read (Addr b i) h = Inr v"
  by (simp add: read_def slot_def)

lemma assign_ok:
  "cells h b = Some cs \<Longrightarrow> i < length cs \<Longrightarrow> cs ! i = Some w \<Longrightarrow>
   assign (Addr b i) v h = Inr (h\<lparr>blocks := (blocks h)[b := Block (cs[i := Some v])]\<rparr>)"
  by (simp add: assign_def slot_def)

lemma uninitialized_copy_values_ok:
  "cells h b = Some cs \<Longrightarrow> i + length xs \<le> length cs \<Longrightarrow>
   uninitialized_copy_values xs (Addr b i) h =
     Inr (h\<lparr>blocks := (blocks h)[b := Block (take i cs @ map Some xs @ drop (i + length xs) cs)],
            trace := trace h @ map (Construct b) [i..<i + length xs]\<rparr>,
          Addr b (i + length xs))"
proof (induction xs arbitrary: h cs i)
  case Nil
  then show ?case
    by (simp add: blocks_update_id)
next
  case (Cons x xs)
  let ?h1 = "h\<lparr>blocks := (blocks h)[b := Block (cs[i := Some x])],
               trace := trace h @ [Construct b i]\<rparr>"
  from Cons.prems have i: "i < length cs" by simp
  from Cons.prems have b: "b < length (blocks h)" by (simp add: cells_SomeD)
  have c1: "cells ?h1 b = Some (cs[i := Some x])"
    using b by (simp add: cells_def)
  have len: "Suc i + length xs \<le> length (cs[i := Some x])"
    using Cons.prems by simp
  have tk: "take (Suc i) (cs[i := Some x]) = take i cs @ [Some x]"
    using i by (simp add: take_Suc_conv_app_nth)
  have up: "[i..<Suc (i + length xs)] = i # [Suc i..<Suc (i + length xs)]"
    by (rule upt_conv_Cons) simp
  show ?case
    using Cons.IH [OF c1 len] Cons.prems(1) i
    by (simp add: construct_ok tk up del: upt_Suc)
qed

lemma ptr_add_add: "ptr_add (ptr_add p m) n = ptr_add p (m + n)"
  by (cases p) simp_all

lemma ptr_add_0: "ptr_add p 0 = p"
  by (cases p) simp_all

lemma construct_InrD:
  "construct p v h = Inr h' \<Longrightarrow>
   \<exists>b i cs. p = Addr b i \<and> cells h b = Some cs \<and> i < length cs \<and>
     h' = h\<lparr>blocks := (blocks h)[b := Block (cs[i := Some v])],
            trace := trace h @ [Construct b i]\<rparr>"
  by (auto simp: construct_def slot_def split: pointer.splits option.splits if_splits)

lemma destroy_InrD:
  "destroy p h = Inr h' \<Longrightarrow>
   \<exists>b i cs. p = Addr b i \<and> cells h b = Some cs \<and> i < length cs \<and> cs ! i \<noteq> None \<and>
     h' = h\<lparr>blocks := (blocks h)[b := Block (cs[i := None])],
            trace := trace h @ [Destroy b i]\<rparr>"
  by (auto simp: destroy_def slot_def split: pointer.splits option.splits if_splits)

lemma read_InrD:
  "read p h = Inr x \<Longrightarrow>
   \<exists>b i cs. p = Addr b i \<and> cells h b = Some cs \<and> i < length cs \<and> cs ! i = Some x"
  by (auto simp: read_def slot_def split: pointer.splits option.splits if_splits)

lemma assign_InrD:
  "assign p v h = Inr h' \<Longrightarrow>
   \<exists>b i cs. p = Addr b i \<and> cells h b = Some cs \<and> i < length cs \<and> cs ! i \<noteq> None \<and>
     h' = h\<lparr>blocks := (blocks h)[b := Block (cs[i := Some v])]\<rparr>"
  by (auto simp: assign_def slot_def split: pointer.splits option.splits if_splits)

lemma allocate_InrD:
  "allocate n h = Inr (h', p) \<Longrightarrow>
   n \<le> budget h \<and> p = Addr (length (blocks h)) 0 \<and>
   h' = h\<lparr>blocks := blocks h @ [Block (replicate n None)], budget := budget h - n,
          trace := trace h @ [Allocate (length (blocks h)) n]\<rparr>"
  by (auto simp: allocate_def split: if_splits)

lemma deallocate_InrD:
  "deallocate p n h = Inr h' \<Longrightarrow>
   (p = Null \<and> h' = h\<lparr>trace := trace h @ [Deallocate_null n]\<rparr>) \<or>
   (\<exists>b cs. p = Addr b 0 \<and> cells h b = Some cs \<and>
      h' = h\<lparr>blocks := (blocks h)[b := Released], budget := budget h + length cs,
             trace := trace h @ [Deallocate b n]\<rparr>)"
  by (cases p) (auto split: option.splits if_splits)

subsection \<open>Where a copy ends\<close>

lemma uninitialized_copy_values_end:
  "uninitialized_copy_values xs d h = Inr (h', e) \<Longrightarrow> e = ptr_add d (length xs)"
proof (induction xs arbitrary: d h)
  case Nil
  then show ?case by (simp add: ptr_add_0)
next
  case (Cons x xs)
  from Cons.prems obtain h1 where
    "uninitialized_copy_values xs (ptr_add d 1) h1 = Inr (h', e)"
    by (auto split: sum.splits)
  from Cons.IH [OF this] show ?case
    by (simp add: ptr_add_add)
qed

lemma uninitialized_copy_n_end:
  "uninitialized_copy_n p n d h = Inr (h', e) \<Longrightarrow> e = ptr_add d n"
proof (induction n arbitrary: p d h)
  case 0
  then show ?case by (simp add: ptr_add_0)
next
  case (Suc n)
  from Suc.prems obtain h1 where
    "uninitialized_copy_n (ptr_add p 1) n (ptr_add d 1) h1 = Inr (h', e)"
    by (auto split: sum.splits)
  from Suc.IH [OF this] show ?case
    by (simp add: ptr_add_add)
qed

lemma ptr_diff_step:
  "ptr_diff q p = Some n \<Longrightarrow> p \<noteq> q \<Longrightarrow> p = Addr b i \<Longrightarrow>
   \<exists>m. n = Suc m \<and> ptr_diff q (ptr_add p 1) = Some m"
  by (cases q) (auto split: if_splits intro: Suc_diff_Suc)

lemma uninitialized_copy_end:
  "uninitialized_copy p q d h = Inr (h', e) \<Longrightarrow> ptr_diff q p = Some n \<Longrightarrow> e = ptr_add d n"
proof (induction p q d h arbitrary: n rule: uninitialized_copy.induct)
  case (1 p q d h)
  show ?case
  proof (cases "p = q")
    case True
    with "1.prems" show ?thesis
      by (cases q) (simp_all add: uninitialized_copy.simps ptr_add_0)
  next
    case False
    from "1.prems"(1) False obtain x h1 where
      r: "read p h = Inr x" and c: "construct d x h = Inr h1" and
      rest: "uninitialized_copy (ptr_add p 1) q (ptr_add d 1) h1 = Inr (h', e)"
      by (subst (asm) uninitialized_copy.simps) (auto split: sum.splits)
    from r obtain b i where p: "p = Addr b i"
      by (auto dest: read_InrD)
    from ptr_diff_step [OF "1.prems"(2) False p] obtain m where
      m: "n = Suc m" "ptr_diff q (ptr_add p 1) = Some m"
      by blast
    from "1.IH" [OF False r c rest m(2)] m(1) show ?thesis
      by (simp add: ptr_add_add)
  qed
qed

lemma copy_end:
  "copy p q d h = Inr (h', e) \<Longrightarrow> ptr_diff q p = Some n \<Longrightarrow> e = ptr_add d n"
proof (induction p q d h arbitrary: n rule: copy.induct)
  case (1 p q d h)
  show ?case
  proof (cases "p = q")
    case True
    with "1.prems" show ?thesis
      by (cases q) (simp_all add: copy.simps ptr_add_0)
  next
    case False
    from "1.prems"(1) False obtain x h1 where
      r: "read p h = Inr x" and c: "assign d x h = Inr h1" and
      rest: "copy (ptr_add p 1) q (ptr_add d 1) h1 = Inr (h', e)"
      by (subst (asm) copy.simps) (auto split: sum.splits)
    from r obtain b i where p: "p = Addr b i"
      by (auto dest: read_InrD)
    from ptr_diff_step [OF "1.prems"(2) False p] obtain m where
      m: "n = Suc m" "ptr_diff q (ptr_add p 1) = Some m"
      by blast
    from "1.IH" [OF False r c rest m(2)] m(1) show ?thesis
      by (simp add: ptr_add_add)
  qed
qed

subsection \<open>The storage operations keep the size of every block\<close>

lemma slots_blocks_update:
  "cells h b = Some cs \<Longrightarrow> length cs' = length cs \<Longrightarrow>
   slots (h\<lparr>blocks := (blocks h)[b := Block cs'], trace := t\<rparr>) b' = slots h b'"
  by (auto simp: slots_def cells_def nth_list_update split: if_splits block.splits)

lemma slots_trace_update: "slots (h\<lparr>trace := t\<rparr>) b = slots h b"
  by (simp add: slots_def cells_def)

lemma slots_construct: "construct p v h = Inr h' \<Longrightarrow> slots h' b = slots h b"
  by (auto dest!: construct_InrD simp: slots_blocks_update)

lemma slots_destroy: "destroy p h = Inr h' \<Longrightarrow> slots h' b = slots h b"
  by (auto dest!: destroy_InrD simp: slots_blocks_update)

lemma slots_assign: "assign p v h = Inr h' \<Longrightarrow> slots h' b = slots h b"
proof -
  assume "assign p v h = Inr h'"
  then obtain a i cs where
    c: "cells h a = Some cs" and h': "h' = h\<lparr>blocks := (blocks h)[a := Block (cs[i := Some v])]\<rparr>"
    by (auto dest!: assign_InrD)
  have "h' = h\<lparr>blocks := (blocks h)[a := Block (cs[i := Some v])], trace := trace h\<rparr>"
    by (simp add: h')
  then show ?thesis
    using slots_blocks_update [OF c, of "cs[i := Some v]" "trace h" b] by simp
qed

lemma slots_allocate:
  "allocate n h = Inr (h', p) \<Longrightarrow>
   slots h' b = (if b = length (blocks h) then Some n else slots h b)"
  by (auto dest!: allocate_InrD simp: slots_def cells_def nth_append)

lemma slots_deallocate:
  "deallocate p n h = Inr h' \<Longrightarrow> slots h' b = (if p = Addr b 0 then None else slots h b)"
  by (auto dest!: deallocate_InrD simp: slots_def cells_def nth_list_update
      split: if_splits block.splits)

lemma slots_uninitialized_copy_n:
  "uninitialized_copy_n p n d h = Inr (h', e) \<Longrightarrow> slots h' b = slots h b"
proof (induction n arbitrary: p d h)
  case 0
  then show ?case by simp
next
  case (Suc n)
  from Suc.prems obtain x h1 where
    c: "construct d x h = Inr h1" and
    rest: "uninitialized_copy_n (ptr_add p 1) n (ptr_add d 1) h1 = Inr (h', e)"
    by (auto split: sum.splits)
  from Suc.IH [OF rest] slots_construct [OF c] show ?case by simp
qed

lemma slots_uninitialized_fill_n:
  "uninitialized_fill_n p n v h = Inr h' \<Longrightarrow> slots h' b = slots h b"
proof (induction n arbitrary: p h)
  case 0
  then show ?case by simp
next
  case (Suc n)
  from Suc.prems obtain h1 where
    c: "construct p v h = Inr h1" and
    rest: "uninitialized_fill_n (ptr_add p 1) n v h1 = Inr h'"
    by (auto split: sum.splits)
  from Suc.IH [OF rest] slots_construct [OF c] show ?case by simp
qed

lemma slots_destroy_range:
  "destroy_range p q h = Inr h' \<Longrightarrow> slots h' b = slots h b"
proof (induction p q h rule: destroy_range.induct)
  case (1 p q h)
  show ?case
  proof (cases "p = q")
    case True
    with "1.prems" show ?thesis by (simp add: destroy_range.simps)
  next
    case False
    from "1.prems" False obtain h1 where
      d: "destroy p h = Inr h1" and rest: "destroy_range (ptr_add p 1) q h1 = Inr h'"
      by (subst (asm) destroy_range.simps) (auto split: sum.splits)
    from "1.IH" [OF False d rest] slots_destroy [OF d] show ?thesis by simp
  qed
qed

subsection \<open>A loop that succeeds has stayed inside its block\<close>

lemma construct_slots:
  "construct (Addr b i) v h = Inr h' \<Longrightarrow> \<exists>n. slots h b = Some n \<and> i < n"
  by (auto dest!: construct_InrD simp: slots_def)

lemma uninitialized_fill_n_bound:
  "uninitialized_fill_n (Addr b i) n v h = Inr h' \<Longrightarrow> 0 < n \<Longrightarrow>
   \<exists>k. slots h b = Some k \<and> i + n \<le> k"
proof (induction n arbitrary: i h)
  case 0
  then show ?case by simp
next
  case (Suc n)
  from Suc.prems obtain h1 where
    c: "construct (Addr b i) v h = Inr h1" and
    rest: "uninitialized_fill_n (Addr b (Suc i)) n v h1 = Inr h'"
    by (auto split: sum.splits)
  from construct_slots [OF c] obtain k where k: "slots h b = Some k" "i < k" by blast
  show ?case
  proof (cases "n = 0")
    case True
    with k show ?thesis by simp
  next
    case False
    with Suc.IH [OF rest] obtain k' where "slots h1 b = Some k'" "Suc i + n \<le> k'" by auto
    with slots_construct [OF c, of b] k show ?thesis by simp
  qed
qed

lemma uninitialized_copy_values_bound:
  "uninitialized_copy_values xs (Addr b i) h = Inr (h', e) \<Longrightarrow> slots h b = Some k \<Longrightarrow>
   i \<le> k \<Longrightarrow> i + length xs \<le> k"
proof (induction xs arbitrary: i h)
  case Nil
  then show ?case by simp
next
  case (Cons x xs)
  from Cons.prems obtain h1 where
    c: "construct (Addr b i) x h = Inr h1" and
    rest: "uninitialized_copy_values xs (Addr b (Suc i)) h1 = Inr (h', e)"
    by (auto split: sum.splits)
  from construct_slots [OF c] Cons.prems(2) have i: "i < k" by simp
  have "slots h1 b = Some k"
    using slots_construct [OF c, of b] Cons.prems(2) by simp
  from Cons.IH [OF rest this] i show ?case by simp
qed

lemma uninitialized_fill_bound:
  "uninitialized_fill p q v h = Inr h' \<Longrightarrow> p = Addr b i \<Longrightarrow> q = Addr b j \<Longrightarrow> i \<le> j \<Longrightarrow>
   slots h b = Some k \<Longrightarrow> i \<le> k \<Longrightarrow> j \<le> k"
proof (induction p q v h arbitrary: i rule: uninitialized_fill.induct)
  case (1 p q v h)
  show ?case
  proof (cases "p = q")
    case True
    with "1.prems" show ?thesis by simp
  next
    case False
    from "1.prems"(1) False obtain h1 where
      c: "construct p v h = Inr h1" and rest: "uninitialized_fill (ptr_add p 1) q v h1 = Inr h'"
      by (subst (asm) uninitialized_fill.simps) (auto split: sum.splits)
    from c "1.prems"(2) "1.prems"(5) have i: "i < k"
      by (auto dest: construct_slots)
    have s1: "slots h1 b = Some k"
      using slots_construct [OF c, of b] "1.prems"(5) by simp
    have p1: "ptr_add p 1 = Addr b (Suc i)"
      using "1.prems"(2) by simp
    have ij: "Suc i \<le> j"
      using False "1.prems"(2,3,4) by auto
    from "1.IH" [OF False c rest p1 "1.prems"(3) ij s1] i show ?thesis by simp
  qed
qed

subsection \<open>What a successful reserve has done\<close>

lemma reserve_InrD:
  assumes "reserve k h c = Inr (h', c')"
  shows "\<exists>s h1 h2 h3.
    size_c c = Some s \<and>
    allocate k h = Inr (h1, Addr (length (blocks h)) 0) \<and>
    uninitialized_copy_n (m_first c) (min s k) (Addr (length (blocks h)) 0) h1 =
      Inr (h2, Addr (length (blocks h)) (min s k)) \<and>
    destroy_all c h2 = Inr h3 \<and>
    deallocate (m_first c) (m_capacity c) h3 = Inr h' \<and>
    c' = \<lparr>m_first = Addr (length (blocks h)) 0, m_second = Addr (length (blocks h)) (min s k),
          m_capacity = k\<rparr>"
proof -
  from assms obtain h1 p s h2 q h3 where
    a: "allocate k h = Inr (h1, p)" and s: "size_c c = Some s" and
    u: "uninitialized_copy_n (m_first c) (min s k) p h1 = Inr (h2, q)" and
    d: "destroy_all c h2 = Inr h3" and
    f: "deallocate (m_first c) (m_capacity c) h3 = Inr h'" and
    c': "c' = \<lparr>m_first = p, m_second = q, m_capacity = k\<rparr>"
    by (auto simp: reserve_def split: sum.splits option.splits prod.splits)
  from a have p: "p = Addr (length (blocks h)) 0"
    by (simp add: allocate_InrD)
  from uninitialized_copy_n_end [OF u] p have q: "q = Addr (length (blocks h)) (min s k)"
    by simp
  from a s u d f c' p q show ?thesis by simp
qed

lemma slots_reserve:
  assumes "reserve k h c = Inr (h', c')"
  shows "slots h' (length (blocks h)) = None \<or> slots h' (length (blocks h)) = Some k"
proof -
  from reserve_InrD [OF assms] obtain s h1 h2 h3 where
    a: "allocate k h = Inr (h1, Addr (length (blocks h)) 0)" and
    u: "uninitialized_copy_n (m_first c) (min s k) (Addr (length (blocks h)) 0) h1 =
      Inr (h2, Addr (length (blocks h)) (min s k))" and
    d: "destroy_all c h2 = Inr h3" and
    f: "deallocate (m_first c) (m_capacity c) h3 = Inr h'"
    by blast
  have "slots h1 (length (blocks h)) = Some k"
    using slots_allocate [OF a] by simp
  then have "slots h2 (length (blocks h)) = Some k"
    using slots_uninitialized_copy_n [OF u] by simp
  then have "slots h3 (length (blocks h)) = Some k"
    using d by (simp add: destroy_all_def slots_destroy_range)
  then show ?thesis
    using slots_deallocate [OF f, of "length (blocks h)"] by (simp split: if_splits)
qed

lemma resize_InrD:
  assumes "resize n v h c = Inr (h', c')"
  shows "\<exists>h1 s. reserve (twice n) h c = Inr (h1, c') \<and> size_c c' = Some s \<and>
    (if n > s then uninitialized_fill_n (ptr_add (m_first c') s) (n - s) v h1 = Inr h'
     else destroy_range (ptr_sub (ptr_add (m_first c') s) n) (m_second c') h1 = Inr h')"
  using assms
  by (auto simp: resize_def split: sum.splits option.splits prod.splits if_splits)

subsection \<open>Every operation keeps the capacity at or above the size\<close>

lemma invariant_default_ctor: "default_ctor h = Inr (h', c) \<Longrightarrow> invariant c"
  by (auto simp: default_ctor_def invariant_def size_c_def split: sum.splits dest!: allocate_InrD)

lemma invariant_sized_ctor:
  assumes "sized_ctor n v h = Inr (h', c)"
  shows "invariant c"
proof -
  from assms obtain h1 p where
    a: "allocate (twice n) h = Inr (h1, p)" and
    f: "uninitialized_fill p (ptr_add p n) v h1 = Inr h'" and
    c: "c = \<lparr>m_first = p, m_second = ptr_add p n, m_capacity = twice n\<rparr>"
    by (auto simp: sized_ctor_def split: sum.splits prod.splits)
  from a have p: "p = Addr (length (blocks h)) 0"
    by (simp add: allocate_InrD)
  have s: "slots h1 (length (blocks h)) = Some (twice n)"
    using slots_allocate [OF a] by simp
  have "n \<le> twice n"
    using uninitialized_fill_bound [OF f p _ _ s, of n] p by simp
  with c p show ?thesis
    by (simp add: invariant_def size_c_def)
qed

lemma invariant_range_ctor:
  assumes "range_ctor xs h = Inr (h', c)"
  shows "invariant c"
proof -
  from assms obtain n2 h1 p q where
    a: "allocate n2 h = Inr (h1, p)" and
    u: "uninitialized_copy_values xs p h1 = Inr (h', q)" and
    c: "c = \<lparr>m_first = p, m_second = q, m_capacity = length xs\<rparr>"
    by (auto simp: range_ctor_def split: sum.splits option.splits prod.splits)
  from a have p: "p = Addr (length (blocks h)) 0"
    by (simp add: allocate_InrD)
  from uninitialized_copy_values_end [OF u] c p show ?thesis
    by (simp add: invariant_def size_c_def)
qed

lemma invariant_range_ctor_ptr:
  assumes "range_ctor_ptr first lst h = Inr (h', c)"
  shows "invariant c"
proof -
  from assms obtain d n2 h1 p q where
    d: "ptr_diff lst first = Some d" and
    a: "allocate n2 h = Inr (h1, p)" and
    u: "uninitialized_copy first lst p h1 = Inr (h', q)" and
    c: "c = \<lparr>m_first = p, m_second = q, m_capacity = d\<rparr>"
    by (auto simp: range_ctor_ptr_def split: sum.splits option.splits prod.splits)
  from a have p: "p = Addr (length (blocks h)) 0"
    by (simp add: allocate_InrD)
  from uninitialized_copy_end [OF u d] c p show ?thesis
    by (simp add: invariant_def size_c_def)
qed

lemma invariant_init_list_ctor:
  assumes "init_list_ctor xs h = Inr (h', c)"
  shows "invariant c"
proof -
  from assms obtain h1 p q where
    a: "allocate (twice (length xs)) h = Inr (h1, p)" and
    u: "uninitialized_copy_values xs p h1 = Inr (h', q)" and
    c: "c = \<lparr>m_first = p, m_second = q, m_capacity = twice (length xs)\<rparr>"
    by (auto simp: init_list_ctor_def split: sum.splits prod.splits)
  from a have p: "p = Addr (length (blocks h)) 0"
    by (simp add: allocate_InrD)
  have s: "slots h1 (length (blocks h)) = Some (twice (length xs))"
    using slots_allocate [OF a] by simp
  have "length xs \<le> twice (length xs)"
    using uninitialized_copy_values_bound [OF u [unfolded p] s] by simp
  with uninitialized_copy_values_end [OF u] c p show ?thesis
    by (simp add: invariant_def size_c_def)
qed

lemma invariant_move_ctor: "invariant right \<Longrightarrow> invariant (fst (move_ctor right))"
  by (auto simp: invariant_def move_ctor_def size_c_def split: option.splits)

lemma invariant_move_assign_body:
  "invariant right \<Longrightarrow> invariant (fst (move_assign_body right c))"
  by (auto simp: invariant_def move_assign_body_def size_c_def split: option.splits)

lemma invariant_reserve: "reserve k h c = Inr (h', c') \<Longrightarrow> invariant c'"
  by (auto dest!: reserve_InrD simp: invariant_def size_c_def)

lemma invariant_resize: "resize n v h c = Inr (h', c') \<Longrightarrow> invariant c'"
  by (auto dest!: resize_InrD dest: invariant_reserve)

lemma invariant_copy_assign_body:
  assumes "copy_assign_body dflt right h c = Inr (h', c')" and "invariant c"
  shows "invariant c'"
proof -
  from assms(1) obtain sr s h1 c1 q where
    sr: "size_c right = Some sr" and s: "size_c c = Some s" and
    r: "(if sr > s then resize sr dflt h c else Inr (h, c)) = Inr (h1, c1)" and
    cp: "copy (m_first right) (m_second right) (m_first c1) h1 = Inr (h', q)" and
    c': "c' = c1\<lparr>m_second := q\<rparr>"
    by (auto simp: copy_assign_body_def split: sum.splits option.splits prod.splits)
  from copy_end [OF cp sr [unfolded size_c_def]] have q: "q = ptr_add (m_first c1) sr" .
  show ?thesis
  proof (cases "sr > s")
    case False
    with r have "c1 = c" by simp
    with assms(2) s False c' q show ?thesis
      by (cases "m_first c") (auto simp: invariant_def size_c_def)
  next
    case True
    with r have rs: "resize sr dflt h c = Inr (h1, c1)" by simp
    from resize_InrD [OF rs] obtain h0 s1 where
      rv: "reserve (twice sr) h c = Inr (h0, c1)" and s1: "size_c c1 = Some s1" and
      br: "if sr > s1 then uninitialized_fill_n (ptr_add (m_first c1) s1) (sr - s1) dflt h0 = Inr h1
           else destroy_range (ptr_sub (ptr_add (m_first c1) s1) sr) (m_second c1) h0 = Inr h1"
      by blast
    from reserve_InrD [OF rv] s have
      c1: "c1 = \<lparr>m_first = Addr (length (blocks h)) 0,
                 m_second = Addr (length (blocks h)) (min s (twice sr)),
                 m_capacity = twice sr\<rparr>"
      by auto
    from c1 s1 have s1': "s1 = min s (twice sr)" by (simp add: size_c_def)
    with True have lt: "s1 < sr" by simp
    with br c1 have
      f: "uninitialized_fill_n (Addr (length (blocks h)) s1) (sr - s1) dflt h0 = Inr h1"
      by simp
    from uninitialized_fill_n_bound [OF f] lt obtain k where
      k: "slots h0 (length (blocks h)) = Some k" "sr \<le> k" by auto
    with slots_reserve [OF rv] have "sr \<le> twice sr" by auto
    with c1 c' q show ?thesis
      by (simp add: invariant_def size_c_def)
  qed
qed

subsection \<open>Reading a range of constructed elements\<close>

lemma those_map_Some: "those (map Some xs) = Some xs"
  by (induction xs) simp_all

lemma those_eq_SomeD: "those ys = Some xs \<Longrightarrow> ys = map Some xs"
  by (induction ys arbitrary: xs) (auto split: option.splits)

lemma cells_allocate:
  "allocate n h = Inr (h', p) \<Longrightarrow>
   cells h' b = (if b = length (blocks h) then Some (replicate n None) else cells h b)"
  by (auto dest!: allocate_InrD simp: cells_def nth_append)

subsection \<open>The cells of every block after an operation\<close>

lemma cells_put:
  "b < length (blocks h) \<Longrightarrow>
   cells (h\<lparr>blocks := (blocks h)[b := Block cs], trace := t\<rparr>) = (cells h)(b \<mapsto> cs)"
  by (rule ext) (simp add: cells_def)

lemma cells_put_same_trace:
  "b < length (blocks h) \<Longrightarrow>
   cells (h\<lparr>blocks := (blocks h)[b := Block cs]\<rparr>) = (cells h)(b \<mapsto> cs)"
  by (rule ext) (simp add: cells_def)

lemma cells_release:
  "b < length (blocks h) \<Longrightarrow>
   cells (h\<lparr>blocks := (blocks h)[b := Released], budget := n, trace := t\<rparr>) = (cells h)(b := None)"
  by (rule ext) (simp add: cells_def)

lemma cells_same: "cells h b = Some cs \<Longrightarrow> (cells h)(b \<mapsto> cs) = cells h"
  by (rule ext) simp

lemma holdsD:
  assumes "holds h c es"
  shows "\<exists>b cs. m_first c = Addr b 0 \<and> m_second c = Addr b (length es) \<and>
    cells h b = Some cs \<and> length es \<le> length cs \<and> take (length es) cs = map Some es"
proof -
  from assms obtain b where f: "m_first c = Addr b 0" and e: "elements h c = Some es"
    by (auto simp: holds_def split: pointer.splits)
  from e f obtain j cs where
    s: "m_second c = Addr b j" and c: "cells h b = Some cs" and j: "j \<le> length cs" and
    t: "those (take j cs) = Some es"
    by (auto simp: elements_def split: pointer.splits option.splits if_splits)
  from those_eq_SomeD [OF t] have m: "take j cs = map Some es" .
  then have "length (take j cs) = length es" by simp
  with j have "j = length es" by simp
  with f s c j m show ?thesis by simp
qed

lemma holdsI:
  "m_first c = Addr b 0 \<Longrightarrow> m_second c = Addr b (length es) \<Longrightarrow> cells h b = Some cs \<Longrightarrow>
   length es \<le> length cs \<Longrightarrow> take (length es) cs = map Some es \<Longrightarrow> holds h c es"
  by (simp add: holds_def elements_def those_map_Some)

lemma uninitialized_copy_values_cells:
  assumes "cells h b = Some cs" and "i + length xs \<le> length cs"
  shows "\<exists>h'. uninitialized_copy_values xs (Addr b i) h = Inr (h', Addr b (i + length xs)) \<and>
    cells h' = (cells h)(b \<mapsto> take i cs @ map Some xs @ drop (i + length xs) cs) \<and>
    length (blocks h') = length (blocks h) \<and> budget h' = budget h"
  using uninitialized_copy_values_ok [OF assms] cells_SomeD [OF assms(1)]
  by (simp add: cells_put)

lemma construct_cells_other:
  "construct (Addr d j) x h = Inr h1 \<Longrightarrow> b \<noteq> d \<Longrightarrow> cells h1 b = cells h b"
  by (auto dest!: construct_InrD simp: cells_def)

lemma uninitialized_copy_n_values:
  "cells h b = Some cs \<Longrightarrow> b \<noteq> d \<Longrightarrow> i + n \<le> length cs \<Longrightarrow>
   take n (drop i cs) = map Some xs \<Longrightarrow>
   uninitialized_copy_n (Addr b i) n (Addr d j) h = uninitialized_copy_values xs (Addr d j) h"
proof (induction n arbitrary: i j h xs)
  case 0
  then show ?case by simp
next
  case (Suc n)
  from Suc.prems(3) have i: "i < length cs" by simp
  then have dr: "drop i cs = cs ! i # drop (Suc i) cs"
    by (simp add: Cons_nth_drop_Suc)
  with Suc.prems(4) obtain x xs' where
    xs: "xs = x # xs'" and x: "cs ! i = Some x" and t: "take n (drop (Suc i) cs) = map Some xs'"
    by (cases xs) auto
  have r: "read (Addr b i) h = Inr x"
    using Suc.prems(1) i x by (rule read_ok)
  show ?case
  proof (cases "construct (Addr d j) x h")
    case (Inl e)
    with r xs show ?thesis by simp
  next
    case (Inr h1)
    have c1: "cells h1 b = Some cs"
      using construct_cells_other [OF Inr Suc.prems(2)] Suc.prems(1) by simp
    have "uninitialized_copy_n (Addr b (Suc i)) n (Addr d (Suc j)) h1 =
      uninitialized_copy_values xs' (Addr d (Suc j)) h1"
      using Suc.prems(3) by (intro Suc.IH [OF c1 Suc.prems(2) _ t]) simp
    with r Inr xs show ?thesis by simp
  qed
qed

lemma destroy_cells:
  assumes "cells h b = Some cs" and "i < length cs" and "cs ! i \<noteq> None"
  shows "\<exists>h'. destroy (Addr b i) h = Inr h' \<and> cells h' = (cells h)(b \<mapsto> cs[i := None]) \<and>
    length (blocks h') = length (blocks h) \<and> budget h' = budget h"
proof -
  from assms(3) obtain v where "cs ! i = Some v" by auto
  from destroy_ok [OF assms(1,2) this] cells_SomeD [OF assms(1)] show ?thesis
    by (simp add: cells_put)
qed

lemma destroyed_prefix:
  "i < j \<Longrightarrow> j \<le> length cs \<Longrightarrow>
   take (Suc i) (cs[i := None]) @ replicate (j - Suc i) None @ drop j (cs[i := None]) =
   take i cs @ replicate (j - i) None @ drop j cs"
proof -
  assume a: "i < j" "j \<le> length cs"
  then have "take (Suc i) (cs[i := None]) = take i cs @ [None]"
    by (simp add: take_Suc_conv_app_nth)
  moreover have "drop j (cs[i := None]) = drop j cs"
    using a by simp
  moreover have "replicate (j - i) None = None # replicate (j - Suc i) (None :: 'a option)"
    using a by (simp add: Suc_diff_Suc flip: replicate_Suc)
  ultimately show ?thesis by simp
qed

lemma destroy_range_cells:
  "cells h b = Some cs \<Longrightarrow> i \<le> j \<Longrightarrow> j \<le> length cs \<Longrightarrow>
   \<forall>k. i \<le> k \<and> k < j \<longrightarrow> cs ! k \<noteq> None \<Longrightarrow>
   \<exists>h'. destroy_range (Addr b i) (Addr b j) h = Inr h' \<and>
     cells h' = (cells h)(b \<mapsto> take i cs @ replicate (j - i) None @ drop j cs) \<and>
     length (blocks h') = length (blocks h) \<and> budget h' = budget h"
proof (induction "j - i" arbitrary: i h cs)
  case 0
  then show ?case
    by (simp add: destroy_range.simps cells_same)
next
  case (Suc n)
  from Suc.hyps(2) Suc.prems have i: "i < j" "i < length cs" "cs ! i \<noteq> None"
    by auto
  from destroy_cells [OF Suc.prems(1) i(2,3)] obtain h1 where
    d: "destroy (Addr b i) h = Inr h1" and
    c1: "cells h1 = (cells h)(b \<mapsto> cs[i := None])" and
    l1: "length (blocks h1) = length (blocks h)" "budget h1 = budget h"
    by blast
  have c1b: "cells h1 b = Some (cs[i := None])"
    by (simp add: c1)
  have n: "n = j - Suc i"
    using Suc.hyps(2) by simp
  have live: "\<forall>k. Suc i \<le> k \<and> k < j \<longrightarrow> cs[i := None] ! k \<noteq> None"
    using Suc.prems(4) by simp
  from Suc.hyps(1) [OF n c1b _ _ live] i(1) Suc.prems(3) obtain h' where
    r: "destroy_range (Addr b (Suc i)) (Addr b j) h1 = Inr h'" and
    c': "cells h' = (cells h1)(b \<mapsto> take (Suc i) (cs[i := None]) @
           replicate (j - Suc i) None @ drop j (cs[i := None]))" and
    l': "length (blocks h') = length (blocks h1)" "budget h' = budget h1"
    by auto
  have "destroy_range (Addr b i) (Addr b j) h = Inr h'"
    using i(1) d r by (subst destroy_range.simps) simp
  with c' c1 l' l1 destroyed_prefix [OF i(1) Suc.prems(3)] show ?case
    by simp
qed

lemma deallocate_cells:
  assumes "cells h b = Some cs"
  shows "\<exists>h'. deallocate (Addr b 0) n h = Inr h' \<and> cells h' = (cells h)(b := None) \<and>
    length (blocks h') = length (blocks h) \<and> budget h' = budget h + length cs"
  using assms cells_SomeD [OF assms] by (simp add: cells_release)

lemma allocate_cells:
  assumes "n \<le> budget h"
  shows "\<exists>h'. allocate n h = Inr (h', Addr (length (blocks h)) 0) \<and>
    cells h' = (cells h)(length (blocks h) \<mapsto> replicate n None) \<and>
    length (blocks h') = Suc (length (blocks h)) \<and> budget h' = budget h - n"
proof -
  have "cells (h\<lparr>blocks := blocks h @ [Block (replicate n None)], budget := budget h - n,
                trace := trace h @ [Allocate (length (blocks h)) n]\<rparr>) =
        (cells h)(length (blocks h) \<mapsto> replicate n None)"
    by (rule ext) (simp add: cells_def nth_append)
  with assms show ?thesis
    by (simp add: allocate_def)
qed

subsection \<open>reserve on a container in the valid state\<close>

lemma live_prefix:
  "take m cs = map Some es \<Longrightarrow> length es = m \<Longrightarrow> k < m \<Longrightarrow> cs ! k = Some (es ! k)"
proof -
  assume a: "take m cs = map Some es" "length es = m" "k < m"
  have "cs ! k = take m cs ! k"
    using a(3) by (rule nth_take [symmetric])
  also have "\<dots> = map Some es ! k"
    by (simp only: a(1))
  also have "\<dots> = Some (es ! k)"
    using a(2,3) by simp
  finally show ?thesis .
qed

lemma reserve_cells:
  assumes "holds h c es" and "length es \<le> k" and "k \<le> budget h"
  shows "\<exists>h' b cs.
    m_first c = Addr b 0 \<and> cells h b = Some cs \<and>
    reserve k h c =
      Inr (h', \<lparr>m_first = Addr (length (blocks h)) 0,
                m_second = Addr (length (blocks h)) (length es), m_capacity = k\<rparr>) \<and>
    cells h' = (cells h)(b := None,
      length (blocks h) \<mapsto> map Some es @ replicate (k - length es) None) \<and>
    length (blocks h') = Suc (length (blocks h)) \<and>
    budget h' = budget h - k + length cs"
proof -
  let ?m = "length es" and ?nb = "length (blocks h)"
  from holdsD [OF assms(1)] obtain b cs where
    f: "m_first c = Addr b 0" and s: "m_second c = Addr b ?m" and
    c: "cells h b = Some cs" and m: "?m \<le> length cs" and t: "take ?m cs = map Some es"
    by blast
  from cells_SomeD [OF c] have b: "b \<noteq> ?nb" by simp
  from allocate_cells [OF assms(3)] obtain h1 where
    a: "allocate k h = Inr (h1, Addr ?nb 0)" and
    c1: "cells h1 = (cells h)(?nb \<mapsto> replicate k None)" and
    l1: "length (blocks h1) = Suc ?nb" "budget h1 = budget h - k"
    by blast
  have sz: "size_c c = Some ?m"
    by (simp add: size_c_def f s)
  have c1b: "cells h1 b = Some cs" and c1n: "cells h1 ?nb = Some (replicate k None)"
    using b c by (simp_all add: c1)
  have "uninitialized_copy_n (Addr b 0) ?m (Addr ?nb 0) h1 =
    uninitialized_copy_values es (Addr ?nb 0) h1"
    using m t by (intro uninitialized_copy_n_values [OF c1b b]) simp_all
  moreover from uninitialized_copy_values_cells [OF c1n, of 0 es] assms(2) obtain h2 where
    "uninitialized_copy_values es (Addr ?nb 0) h1 = Inr (h2, Addr ?nb ?m)" and
    c2: "cells h2 = (cells h1)(?nb \<mapsto> map Some es @ replicate (k - ?m) None)" and
    l2: "length (blocks h2) = length (blocks h1)" "budget h2 = budget h1"
    by auto
  ultimately have u: "uninitialized_copy_n (Addr b 0) ?m (Addr ?nb 0) h1 = Inr (h2, Addr ?nb ?m)"
    by simp
  have c2b: "cells h2 b = Some cs"
    using b c1b by (simp add: c2)
  have live: "\<forall>j. 0 \<le> j \<and> j < ?m \<longrightarrow> cs ! j \<noteq> None"
    using live_prefix [OF t] by simp
  from destroy_range_cells [OF c2b _ m live] obtain h3 where
    d: "destroy_range (Addr b 0) (Addr b ?m) h2 = Inr h3" and
    c3: "cells h3 = (cells h2)(b \<mapsto> take 0 cs @ replicate (?m - 0) None @ drop ?m cs)" and
    l3: "length (blocks h3) = length (blocks h2)" "budget h3 = budget h2"
    by auto
  have c3b: "cells h3 b = Some (replicate ?m None @ drop ?m cs)"
    by (simp add: c3)
  from deallocate_cells [OF c3b, of "m_capacity c"] obtain h4 where
    r: "deallocate (Addr b 0) (m_capacity c) h3 = Inr h4" and
    c4: "cells h4 = (cells h3)(b := None)" and
    l4: "length (blocks h4) = length (blocks h3)"
      "budget h4 = budget h3 + length (replicate ?m None @ drop ?m cs)"
    by blast
  have res: "reserve k h c =
    Inr (h4, \<lparr>m_first = Addr ?nb 0, m_second = Addr ?nb ?m, m_capacity = k\<rparr>)"
    using a sz u d r assms(2) by (simp add: reserve_def destroy_all_def f s min_absorb1)
  have cells4: "cells h4 = (cells h)(b := None, ?nb \<mapsto> map Some es @ replicate (k - ?m) None)"
    using b by (rule_tac ext) (simp add: c4 c3 c2 c1)
  have "budget h4 = budget h - k + length cs"
    using l4 l3 l2 l1 m by simp
  with f c res cells4 l4 l3 l2 l1 show ?thesis
    by simp
qed

subsection \<open>The destructor on a container in the valid state\<close>

lemma destructor_completes:
  assumes "holds h c es"
  shows "\<exists>h'. destructor h c = Inr h'"
proof -
  let ?m = "length es"
  from holdsD [OF assms] obtain b cs where
    f: "m_first c = Addr b 0" and s: "m_second c = Addr b ?m" and
    c: "cells h b = Some cs" and m: "?m \<le> length cs" and t: "take ?m cs = map Some es"
    by blast
  have live: "\<forall>j. 0 \<le> j \<and> j < ?m \<longrightarrow> cs ! j \<noteq> None"
    using live_prefix [OF t] by simp
  from destroy_range_cells [OF c _ m live] obtain h1 where
    d: "destroy_range (Addr b 0) (Addr b ?m) h = Inr h1" and
    c1: "cells h1 = (cells h)(b \<mapsto> take 0 cs @ replicate (?m - 0) None @ drop ?m cs)"
    by auto
  have "cells h1 b = Some (replicate ?m None @ drop ?m cs)"
    by (simp add: c1)
  from deallocate_cells [OF this, of "m_capacity c"] d f s show ?thesis
    by (auto simp: destructor_def)
qed

subsection \<open>Filling and assigning\<close>

lemma uninitialized_fill_n_values:
  "uninitialized_fill_n p n v h =
     (case uninitialized_copy_values (replicate n v) p h of
        Inl e \<Rightarrow> Inl e
      | Inr (h', q) \<Rightarrow> Inr h')"
  by (induction n arbitrary: p h) (simp_all split: sum.splits)

lemma uninitialized_fill_n_cells:
  assumes "cells h b = Some cs" and "i + n \<le> length cs"
  shows "\<exists>h'. uninitialized_fill_n (Addr b i) n v h = Inr h' \<and>
    cells h' = (cells h)(b \<mapsto> take i cs @ replicate n (Some v) @ drop (i + n) cs) \<and>
    length (blocks h') = length (blocks h) \<and> budget h' = budget h"
  using uninitialized_copy_values_cells [OF assms(1), of i "replicate n v"] assms(2)
  by (auto simp: uninitialized_fill_n_values)

lemma assign_cells:
  assumes "cells h b = Some cs" and "i < length cs" and "cs ! i \<noteq> None"
  shows "\<exists>h'. assign (Addr b i) v h = Inr h' \<and> cells h' = (cells h)(b \<mapsto> cs[i := Some v]) \<and>
    length (blocks h') = length (blocks h) \<and> budget h' = budget h"
proof -
  from assms(3) obtain w where "cs ! i = Some w" by auto
  from assign_ok [OF assms(1,2) this] cells_SomeD [OF assms(1)] show ?thesis
    by (simp add: cells_put_same_trace)
qed

lemma assigned_prefix:
  "j < length ds \<Longrightarrow>
   take (Suc j) (ds[j := Some x]) @ map Some xs @ drop (Suc j + length xs) (ds[j := Some x]) =
   take j ds @ map Some (x # xs) @ drop (j + length (x # xs)) ds"
  by (simp add: take_Suc_conv_app_nth)

lemma copy_cells:
  "cells h s = Some scs \<Longrightarrow> cells h d = Some ds \<Longrightarrow> s \<noteq> d \<Longrightarrow>
   i + length xs \<le> length scs \<Longrightarrow> take (length xs) (drop i scs) = map Some xs \<Longrightarrow>
   j + length xs \<le> length ds \<Longrightarrow> \<forall>k. j \<le> k \<and> k < j + length xs \<longrightarrow> ds ! k \<noteq> None \<Longrightarrow>
   \<exists>h'. copy (Addr s i) (Addr s (i + length xs)) (Addr d j) h = Inr (h', Addr d (j + length xs)) \<and>
     cells h' = (cells h)(d \<mapsto> take j ds @ map Some xs @ drop (j + length xs) ds) \<and>
     length (blocks h') = length (blocks h) \<and> budget h' = budget h"
proof (induction xs arbitrary: i j h ds)
  case Nil
  then show ?case
    by (simp add: copy.simps cells_same)
next
  case (Cons x xs)
  from Cons.prems(4) have i: "i < length scs" by simp
  then have "drop i scs = scs ! i # drop (Suc i) scs"
    by (simp add: Cons_nth_drop_Suc)
  with Cons.prems(5) have x: "scs ! i = Some x" and
    t: "take (length xs) (drop (Suc i) scs) = map Some xs"
    by auto
  have r: "read (Addr s i) h = Inr x"
    using Cons.prems(1) i x by (rule read_ok)
  from Cons.prems(6,7) have j: "j < length ds" "ds ! j \<noteq> None"
    by auto
  from assign_cells [OF Cons.prems(2) j, of x] obtain h1 where
    a: "assign (Addr d j) x h = Inr h1" and
    c1: "cells h1 = (cells h)(d \<mapsto> ds[j := Some x])" and
    l1: "length (blocks h1) = length (blocks h)" "budget h1 = budget h"
    by blast
  have c1s: "cells h1 s = Some scs" and c1d: "cells h1 d = Some (ds[j := Some x])"
    using Cons.prems(1,3) by (simp_all add: c1)
  have live: "\<forall>k. Suc j \<le> k \<and> k < Suc j + length xs \<longrightarrow> ds[j := Some x] ! k \<noteq> None"
    using Cons.prems(7) by simp
  have fit: "Suc i + length xs \<le> length scs" "Suc j + length xs \<le> length (ds[j := Some x])"
    using Cons.prems(4,6) by simp_all
  from Cons.IH [OF c1s c1d Cons.prems(3) fit(1) t fit(2) live] obtain h' where
    rest: "copy (Addr s (Suc i)) (Addr s (Suc i + length xs)) (Addr d (Suc j)) h1 =
      Inr (h', Addr d (Suc j + length xs))" and
    c': "cells h' = (cells h1)(d \<mapsto> take (Suc j) (ds[j := Some x]) @ map Some xs @
      drop (Suc j + length xs) (ds[j := Some x]))" and
    l': "length (blocks h') = length (blocks h1)" "budget h' = budget h1"
    by blast
  have "copy (Addr s i) (Addr s (i + length (x # xs))) (Addr d j) h =
    Inr (h', Addr d (j + length (x # xs)))"
    using r a rest by (subst copy.simps) simp
  moreover have "cells h' = (cells h)(d \<mapsto> take j ds @ map Some (x # xs) @
      drop (j + length (x # xs)) ds)"
    using c' c1 assigned_prefix [OF j(1), of x xs] by simp
  moreover have "length (blocks h') = length (blocks h)" "budget h' = budget h"
    using l' l1 by simp_all
  ultimately show ?case
    by blast
qed

lemma twice_small: "2 * n < 2 ^ 64 \<Longrightarrow> twice n = 2 * n"
  by (simp add: twice_def mult.commute)

lemma resize_grow_cells:
  assumes "holds h c es" and "length es < n" and "2 * n < 2 ^ 64" and "2 * n \<le> budget h"
  shows "\<exists>h' b.
    m_first c = Addr b 0 \<and>
    resize n v h c =
      Inr (h', \<lparr>m_first = Addr (length (blocks h)) 0,
                m_second = Addr (length (blocks h)) (length es), m_capacity = 2 * n\<rparr>) \<and>
    cells h' = (cells h)(b := None,
      length (blocks h) \<mapsto>
        map Some es @ replicate (n - length es) (Some v) @ replicate n None) \<and>
    length (blocks h') = Suc (length (blocks h))"
proof -
  let ?m = "length es" and ?nb = "length (blocks h)"
  let ?c1 = "\<lparr>m_first = Addr ?nb 0, m_second = Addr ?nb ?m, m_capacity = 2 * n\<rparr>"
  have k: "?m \<le> 2 * n"
    using assms(2) by simp
  from reserve_cells [OF assms(1) k assms(4)] obtain h1 b where
    f: "m_first c = Addr b 0" and
    r: "reserve (2 * n) h c = Inr (h1, ?c1)" and
    c1: "cells h1 = (cells h)(b := None, ?nb \<mapsto> map Some es @ replicate (2 * n - ?m) None)" and
    l1: "length (blocks h1) = Suc ?nb"
    by blast
  have c1n: "cells h1 ?nb = Some (map Some es @ replicate (2 * n - ?m) None)"
    by (simp add: c1)
  have fit: "?m + (n - ?m) \<le> length (map Some es @ replicate (2 * n - ?m) (None :: 'a option))"
    using assms(2) by simp
  from uninitialized_fill_n_cells [OF c1n fit, of v] obtain h2 where
    u: "uninitialized_fill_n (Addr ?nb ?m) (n - ?m) v h1 = Inr h2" and
    c2: "cells h2 = (cells h1)(?nb \<mapsto>
      take ?m (map Some es @ replicate (2 * n - ?m) None) @ replicate (n - ?m) (Some v) @
      drop (?m + (n - ?m)) (map Some es @ replicate (2 * n - ?m) None))" and
    l2: "length (blocks h2) = length (blocks h1)"
    by blast
  have "2 * n - ?m - (n - ?m) = n"
    using assms(2) by simp
  then have c2': "cells h2 = (cells h1)(?nb \<mapsto>
      map Some es @ replicate (n - ?m) (Some v) @ replicate n None)"
    using c2 assms(2) by simp
  have "resize n v h c = Inr (h2, ?c1)"
    using r u assms(2) by (simp add: resize_def twice_small [OF assms(3)] size_c_def)
  moreover have "cells h2 = (cells h)(b := None,
      ?nb \<mapsto> map Some es @ replicate (n - ?m) (Some v) @ replicate n None)"
    by (simp add: c2' c1)
  ultimately show ?thesis
    using f l1 l2 by simp
qed

subsection \<open>Running the model on numerals\<close>

lemma replicate_numeral: "replicate (numeral k) x = x # replicate (pred_numeral k) x"
  by (simp add: numeral_eq_Suc)

lemma uninitialized_fill_n_numeral:
  "uninitialized_fill_n p (numeral k) v h =
     (case construct p v h of
        Inl e \<Rightarrow> Inl e
      | Inr h1 \<Rightarrow> uninitialized_fill_n (ptr_add p 1) (pred_numeral k) v h1)"
  by (simp add: numeral_eq_Suc)

lemma uninitialized_copy_n_numeral:
  "uninitialized_copy_n p (numeral k) d h =
     (case read p h of
        Inl e \<Rightarrow> Inl e
      | Inr x \<Rightarrow>
          (case construct d x h of
             Inl e \<Rightarrow> Inl e
           | Inr h1 \<Rightarrow> uninitialized_copy_n (ptr_add p 1) (pred_numeral k) (ptr_add d 1) h1))"
  by (simp add: numeral_eq_Suc)

lemmas run_simps =
  replicate_numeral uninitialized_fill_n_numeral uninitialized_copy_n_numeral upt_rec
  default_ctor_def sized_ctor_def range_ctor_def range_ctor_ptr_def copy_ctor_def
  move_ctor_def init_list_ctor_def destructor_def reserve_def resize_def copy_assign_body_def
  copy_assign_def move_assign_body_def move_assign_def size_c_def destroy_all_def
  allocate_def construct_def destroy_def read_def assign_def slot_def cells_def
  twice_def twice_distance_def default_capacity_def thrown_in_def
  uninitialized_fill.simps uninitialized_copy.simps copy.simps
  destroy_range.simps

section \<open>resize\<close>

text \<open>
  C1 fails on the code. \<^verbatim>\<open>resize\<close> never assigns \<^verbatim>\<open>m_array.second\<close>: \<^verbatim>\<open>size()\<close> after it is
  what \<^verbatim>\<open>reserve(2 * new_size)\<close> left, not \<open>new_size\<close>. Growing a container that holds
  1, 2, 3 to five elements constructs two more beyond the end and leaves \<^verbatim>\<open>size()\<close> at 3.
  Shrinking the same container to two elements destroys the range that starts at
  \<^verbatim>\<open>first + size() - new_size\<close>, the two trailing elements instead of the one, and leaves
  \<^verbatim>\<open>size()\<close> at 3 with two destroyed elements in the live range.
\<close>

theorem resize_leaves_size:
  "init_list_ctor [1, 2, 3 :: nat] \<lparr>blocks = [], budget = 32, trace = []\<rparr> =
     Inr (\<lparr>blocks = [Block [Some 1, Some 2, Some 3, None, None, None]], budget = 26,
            trace = [Allocate 0 6, Construct 0 0, Construct 0 1, Construct 0 2]\<rparr>,
          \<lparr>m_first = Addr 0 0, m_second = Addr 0 3, m_capacity = 6\<rparr>) \<and>
   resize 5 9
       \<lparr>blocks = [Block [Some (1::nat), Some 2, Some 3, None, None, None]], budget = 26,
          trace = [Allocate 0 6, Construct 0 0, Construct 0 1, Construct 0 2]\<rparr>
       \<lparr>m_first = Addr 0 0, m_second = Addr 0 3, m_capacity = 6\<rparr> =
     Inr (\<lparr>blocks = [Released, Block [Some 1, Some 2, Some 3, Some 9, Some 9,
                                         None, None, None, None, None]],
            budget = 22,
            trace = [Allocate 0 6, Construct 0 0, Construct 0 1, Construct 0 2,
                     Allocate 1 10, Construct 1 0, Construct 1 1, Construct 1 2,
                     Destroy 0 0, Destroy 0 1, Destroy 0 2, Deallocate 0 6,
                     Construct 1 3, Construct 1 4]\<rparr>,
          \<lparr>m_first = Addr 1 0, m_second = Addr 1 3, m_capacity = 10\<rparr>) \<and>
   size_c \<lparr>m_first = Addr 1 0, m_second = Addr 1 3, m_capacity = 10\<rparr> = Some 3 \<and>
   resize 2 9
       \<lparr>blocks = [Block [Some (1::nat), Some 2, Some 3, None, None, None]], budget = 26,
          trace = [Allocate 0 6, Construct 0 0, Construct 0 1, Construct 0 2]\<rparr>
       \<lparr>m_first = Addr 0 0, m_second = Addr 0 3, m_capacity = 6\<rparr> =
     Inr (\<lparr>blocks = [Released, Block [Some 1, None, None, None]],
            budget = 28,
            trace = [Allocate 0 6, Construct 0 0, Construct 0 1, Construct 0 2,
                     Allocate 1 4, Construct 1 0, Construct 1 1, Construct 1 2,
                     Destroy 0 0, Destroy 0 1, Destroy 0 2, Deallocate 0 6,
                     Destroy 1 1, Destroy 1 2]\<rparr>,
          \<lparr>m_first = Addr 1 0, m_second = Addr 1 3, m_capacity = 4\<rparr>) \<and>
   size_c \<lparr>m_first = Addr 1 0, m_second = Addr 1 3, m_capacity = 4\<rparr> = Some 3 \<and>
   elements \<lparr>blocks = [Released, Block [Some (1::nat), None, None, None]],
            budget = 28,
            trace = [Allocate 0 6, Construct 0 0, Construct 0 1, Construct 0 2,
                     Allocate 1 4, Construct 1 0, Construct 1 1, Construct 1 2,
                     Destroy 0 0, Destroy 0 1, Destroy 0 2, Deallocate 0 6,
                     Destroy 1 1, Destroy 1 2]\<rparr>
          \<lparr>m_first = Addr 1 0, m_second = Addr 1 3, m_capacity = 4\<rparr> = None"
  by (simp add: run_simps elements_def)

section \<open>Moving from a container\<close>

text \<open>
  C2 fails on the code, for move assignment. The move constructor does what the claim
  says: the source is left with null \<^verbatim>\<open>begin\<close> and \<^verbatim>\<open>end\<close>, so its \<^verbatim>\<open>size()\<close> is 0 and it holds
  no element; its destructor destroys no element and releases no block, its one call of
  the allocator being \<^verbatim>\<open>deallocate\<close> on the null pointer with the capacity the source still
  records, which \<^verbatim>\<open>std::allocator\<close> ignores; the destination is the container the source
  was, with the same pointers and capacity, so it holds the elements the source held, in
  order. The statements of move assignment leave the same source, but move assignment
  has no return statement: no call of it returns, whatever the two containers are.
\<close>

theorem move_assign_does_not_return:
  "m_first (snd (move_ctor right)) = Null \<and>
   m_second (snd (move_ctor right)) = Null \<and>
   size_c (snd (move_ctor right)) = Some 0 \<and>
   elements h (snd (move_ctor right)) = Some [] \<and>
   destructor h (snd (move_ctor right)) =
     Inr (h\<lparr>trace := trace h @ [Deallocate_null (m_capacity right)]\<rparr>) \<and>
   fst (move_ctor right) = right \<and>
   size_c (fst (move_ctor right)) = size_c right \<and>
   elements h (fst (move_ctor right)) = elements h right \<and>
   snd (move_assign_body right c) = snd (move_ctor right) \<and>
   m_first (fst (move_assign_body right c)) = m_first right \<and>
   m_second (fst (move_assign_body right c)) = m_second right \<and>
   m_capacity (fst (move_assign_body right c)) = m_capacity right \<and>
   move_assign right c = Inl No_return \<and>
   move_assign \<lparr>m_first = Addr 0 0, m_second = Addr 0 3, m_capacity = 6\<rparr>
       \<lparr>m_first = Addr 1 0, m_second = Addr 1 0, m_capacity = 4\<rparr> =
     Inl No_return"
  by (simp add: move_ctor_def move_assign_body_def move_assign_def size_c_def elements_def
      destructor_def destroy_range.simps split: pointer.splits)

section \<open>Every element destroyed once, every block released once\<close>

text \<open>
  C3 fails on the code. A container built by the range constructor from two values
  takes a block of four slots and its destructor hands the block back with the count
  two. After \<^verbatim>\<open>resize(3)\<close> on a container of three elements the destructor destroys
  elements that \<^verbatim>\<open>resize\<close> has destroyed already. Move assignment does not return; its
  statements, taken as executed, overwrite the pointers of the container assigned to
  without destroying its elements or releasing its block: after both containers are
  destroyed, block 0 is still allocated and its element still constructed, and the
  moved-from container has called \<^verbatim>\<open>deallocate\<close> on the null pointer with the count two.
\<close>

theorem storage_events_unbalanced:
  "range_ctor [7, 8 :: nat] \<lparr>blocks = [], budget = 32, trace = []\<rparr> =
     Inr (\<lparr>blocks = [Block [Some 7, Some 8, None, None]], budget = 28,
            trace = [Allocate 0 4, Construct 0 0, Construct 0 1]\<rparr>,
          \<lparr>m_first = Addr 0 0, m_second = Addr 0 2, m_capacity = 2\<rparr>) \<and>
   destructor
       \<lparr>blocks = [Block [Some (7::nat), Some 8, None, None]], budget = 28,
          trace = [Allocate 0 4, Construct 0 0, Construct 0 1]\<rparr>
       \<lparr>m_first = Addr 0 0, m_second = Addr 0 2, m_capacity = 2\<rparr> =
     Inr \<lparr>blocks = [Released], budget = 32,
          trace = [Allocate 0 4, Construct 0 0, Construct 0 1,
                   Destroy 0 0, Destroy 0 1, Deallocate 0 2]\<rparr> \<and>
   init_list_ctor [1 :: nat] \<lparr>blocks = [], budget = 32, trace = []\<rparr> =
     Inr (\<lparr>blocks = [Block [Some 1, None]], budget = 30,
            trace = [Allocate 0 2, Construct 0 0]\<rparr>,
          \<lparr>m_first = Addr 0 0, m_second = Addr 0 1, m_capacity = 2\<rparr>) \<and>
   init_list_ctor [2 :: nat]
       \<lparr>blocks = [Block [Some 1, None]], budget = 30, trace = [Allocate 0 2, Construct 0 0]\<rparr> =
     Inr (\<lparr>blocks = [Block [Some 1, None], Block [Some 2, None]], budget = 28,
            trace = [Allocate 0 2, Construct 0 0, Allocate 1 2, Construct 1 0]\<rparr>,
          \<lparr>m_first = Addr 1 0, m_second = Addr 1 1, m_capacity = 2\<rparr>) \<and>
   move_assign_body \<lparr>m_first = Addr 1 0, m_second = Addr 1 1, m_capacity = 2\<rparr>
       \<lparr>m_first = Addr 0 0, m_second = Addr 0 1, m_capacity = 2\<rparr> =
     (\<lparr>m_first = Addr 1 0, m_second = Addr 1 1, m_capacity = 2\<rparr>,
      \<lparr>m_first = Null, m_second = Null, m_capacity = 2\<rparr>) \<and>
   destructor
       \<lparr>blocks = [Block [Some (1::nat), None], Block [Some 2, None]], budget = 28,
          trace = [Allocate 0 2, Construct 0 0, Allocate 1 2, Construct 1 0]\<rparr>
       \<lparr>m_first = Addr 1 0, m_second = Addr 1 1, m_capacity = 2\<rparr> =
     Inr \<lparr>blocks = [Block [Some 1, None], Released], budget = 30,
          trace = [Allocate 0 2, Construct 0 0, Allocate 1 2, Construct 1 0,
                   Destroy 1 0, Deallocate 1 2]\<rparr> \<and>
   destructor
       \<lparr>blocks = [Block [Some (1::nat), None], Released], budget = 30,
          trace = [Allocate 0 2, Construct 0 0, Allocate 1 2, Construct 1 0,
                   Destroy 1 0, Deallocate 1 2]\<rparr>
       \<lparr>m_first = Null, m_second = Null, m_capacity = 2\<rparr> =
     Inr \<lparr>blocks = [Block [Some 1, None], Released], budget = 30,
          trace = [Allocate 0 2, Construct 0 0, Allocate 1 2, Construct 1 0,
                   Destroy 1 0, Deallocate 1 2, Deallocate_null 2]\<rparr> \<and>
   resize 3 9
       \<lparr>blocks = [Block [Some (1::nat), Some 2, Some 3, None, None, None]], budget = 26,
          trace = [Allocate 0 6, Construct 0 0, Construct 0 1, Construct 0 2]\<rparr>
       \<lparr>m_first = Addr 0 0, m_second = Addr 0 3, m_capacity = 6\<rparr> =
     Inr (\<lparr>blocks = [Released, Block [None, None, None, None, None, None]], budget = 26,
            trace = [Allocate 0 6, Construct 0 0, Construct 0 1, Construct 0 2,
                     Allocate 1 6, Construct 1 0, Construct 1 1, Construct 1 2,
                     Destroy 0 0, Destroy 0 1, Destroy 0 2, Deallocate 0 6,
                     Destroy 1 0, Destroy 1 1, Destroy 1 2]\<rparr>,
          \<lparr>m_first = Addr 1 0, m_second = Addr 1 3, m_capacity = 6\<rparr>) \<and>
   destructor
       \<lparr>blocks = [Released, Block [None, None, None, None, None, None :: nat option]],
          budget = 26,
          trace = [Allocate 0 6, Construct 0 0, Construct 0 1, Construct 0 2,
                   Allocate 1 6, Construct 1 0, Construct 1 1, Construct 1 2,
                   Destroy 0 0, Destroy 0 1, Destroy 0 2, Deallocate 0 6,
                   Destroy 1 0, Destroy 1 1, Destroy 1 2]\<rparr>
       \<lparr>m_first = Addr 1 0, m_second = Addr 1 3, m_capacity = 6\<rparr> =
     Inl No_object"
  by (simp add: run_simps)

section \<open>Copy assignment\<close>

text \<open>
  What the statements of copy assignment do. Let \<open>a\<close> and \<open>b\<close> be two containers in the
  valid state, on different blocks, holding \<open>xs\<close> and \<open>ys\<close>; when \<open>b\<close> is the larger one,
  let twice its size be in the range of \<^verbatim>\<open>size_type\<close> and that many slots be left. Then the
  statements run to the closing brace, where \<open>a\<close> holds \<open>ys\<close> in a block that is not the
  block of \<open>b\<close>, and \<open>b\<close> holds \<open>ys\<close> as before. When \<open>b\<close> is the larger one the capacity
  of \<open>a\<close> is twice the size of \<open>b\<close>, whatever it was.
\<close>

lemma copy_assign_body_copies:
  assumes "holds h a xs" and "holds h b ys" and "m_first a \<noteq> m_first b"
    and "length xs < length ys \<longrightarrow> 2 * length ys < 2 ^ 64 \<and> 2 * length ys \<le> budget h"
  shows "\<exists>h' a'.
    copy_assign_body dflt b h a = Inr (h', a') \<and>
    size_c a' = size_c b \<and> elements h' a' = elements h b \<and>
    holds h' a' ys \<and> holds h' b ys \<and> m_first a' \<noteq> m_first b \<and>
    m_capacity a' = (if length xs < length ys then 2 * length ys else m_capacity a)"
proof -
  let ?m = "length xs" and ?n = "length ys" and ?nb = "length (blocks h)"
  from holdsD [OF assms(1)] obtain ba acs where
    fa: "m_first a = Addr ba 0" and sa: "m_second a = Addr ba ?m" and
    ca: "cells h ba = Some acs" and ma: "?m \<le> length acs" and ta: "take ?m acs = map Some xs"
    by blast
  from holdsD [OF assms(2)] obtain bb bcs where
    fb: "m_first b = Addr bb 0" and sb: "m_second b = Addr bb ?n" and
    cb: "cells h bb = Some bcs" and mb: "?n \<le> length bcs" and tb: "take ?n bcs = map Some ys"
    by blast
  from assms(3) fa fb have ne: "bb \<noteq> ba" by auto
  have za: "size_c a = Some ?m" and zb: "size_c b = Some ?n"
    by (simp_all add: size_c_def fa sa fb sb)
  from assms(2) fb have eb: "elements h b = Some ys"
    by (simp add: holds_def)
  have src: "0 + ?n \<le> length bcs" "take ?n (drop 0 bcs) = map Some ys"
    using mb tb by simp_all
  show ?thesis
  proof (cases "?m < ?n")
    case True
    with assms(4) have big: "2 * ?n < 2 ^ 64" "2 * ?n \<le> budget h" by simp_all
    let ?a1 = "\<lparr>m_first = Addr ?nb 0, m_second = Addr ?nb ?m, m_capacity = 2 * ?n\<rparr>"
    let ?X = "map Some xs @ replicate (?n - ?m) (Some dflt) @ replicate ?n None"
    from resize_grow_cells [OF assms(1) True big, of dflt] fa obtain h1 where
      r: "resize ?n dflt h a = Inr (h1, ?a1)" and
      c1: "cells h1 = (cells h)(ba := None, ?nb \<mapsto> ?X)"
      by auto
    from cells_SomeD [OF cb] have nb: "bb \<noteq> ?nb" by simp
    have c1b: "cells h1 bb = Some bcs" and c1n: "cells h1 ?nb = Some ?X"
      using ne nb cb by (simp_all add: c1)
    have fit: "0 + ?n \<le> length ?X"
      by simp
    have live: "\<forall>k. 0 \<le> k \<and> k < 0 + ?n \<longrightarrow> ?X ! k \<noteq> None"
      using True by (auto simp: nth_append)
    from copy_cells [OF c1b c1n nb src fit live] obtain h2 where
      cp: "copy (Addr bb 0) (Addr bb (0 + ?n)) (Addr ?nb 0) h1 = Inr (h2, Addr ?nb (0 + ?n))" and
      c2: "cells h2 = (cells h1)(?nb \<mapsto> take 0 ?X @ map Some ys @ drop (0 + ?n) ?X)"
      by blast
    let ?a' = "\<lparr>m_first = Addr ?nb 0, m_second = Addr ?nb ?n, m_capacity = 2 * ?n\<rparr>"
    have res: "copy_assign_body dflt b h a = Inr (h2, ?a')"
      using True r cp by (simp add: copy_assign_body_def za zb fb sb)
    have c2n: "cells h2 ?nb = Some (map Some ys @ replicate ?n None)"
      using True by (simp add: c2)
    have c2b: "cells h2 bb = Some bcs"
      using nb c1b by (simp add: c2)
    have ha: "holds h2 ?a' ys"
      by (rule holdsI [OF _ _ c2n]) simp_all
    have hb: "holds h2 b ys"
      using fb sb c2b mb tb by (rule holdsI)
    from ha have "elements h2 ?a' = Some ys"
      by (simp add: holds_def)
    with res ha hb eb zb True fb nb show ?thesis
      by (simp add: size_c_def)
  next
    case False
    have fit: "0 + ?n \<le> length acs"
      using False ma by simp
    have live: "\<forall>k. 0 \<le> k \<and> k < 0 + ?n \<longrightarrow> acs ! k \<noteq> None"
      using False live_prefix [OF ta] by simp
    from copy_cells [OF cb ca ne src fit live] obtain h2 where
      cp: "copy (Addr bb 0) (Addr bb (0 + ?n)) (Addr ba 0) h = Inr (h2, Addr ba (0 + ?n))" and
      c2: "cells h2 = (cells h)(ba \<mapsto> take 0 acs @ map Some ys @ drop (0 + ?n) acs)"
      by blast
    let ?a' = "a\<lparr>m_second := Addr ba ?n\<rparr>"
    have res: "copy_assign_body dflt b h a = Inr (h2, ?a')"
      using False cp by (simp add: copy_assign_body_def za zb fa fb sb)
    have c2a: "cells h2 ba = Some (map Some ys @ drop ?n acs)"
      by (simp add: c2)
    have c2b: "cells h2 bb = Some bcs"
      using ne cb by (simp add: c2)
    have ha: "holds h2 ?a' ys"
      using fa by (intro holdsI [OF _ _ c2a]) simp_all
    have hb: "holds h2 b ys"
      using fb sb c2b mb tb by (rule holdsI)
    from ha have "elements h2 ?a' = Some ys"
      by (simp add: holds_def fa)
    with res ha hb eb zb False fb ne show ?thesis
      by (simp add: size_c_def fa)
  qed
qed

text \<open>
  C4 fails on the code. Copy assignment has no return statement: no call of it returns,
  whatever the two containers are. Its statements do copy the elements, but the capacity
  is not grown: \<^verbatim>\<open>resize\<close> reserves twice the new size whatever the capacity is. For \<open>a\<close>
  holding 1 in a block of ten slots and \<open>b\<close> holding 4, 5 in a block of four, the
  statements of \<^verbatim>\<open>a = b\<close> take \<open>a\<close> to a block of four slots, its capacity from 10 to 4.
\<close>

theorem copy_assign_does_not_return:
  "copy_assign dflt right h c \<noteq> Inr (h', c') \<and>
   copy_assign_body 0 \<lparr>m_first = Addr 1 0, m_second = Addr 1 2, m_capacity = 4\<rparr>
       \<lparr>blocks = [Block [Some (1::nat), None, None, None, None, None, None, None, None, None],
                   Block [Some 4, Some 5, None, None]],
          budget = 8, trace = []\<rparr>
       \<lparr>m_first = Addr 0 0, m_second = Addr 0 1, m_capacity = 10\<rparr> =
     Inr (\<lparr>blocks = [Released, Block [Some 4, Some 5, None, None],
                      Block [Some 4, Some 5, None, None]],
            budget = 14,
            trace = [Allocate 2 4, Construct 2 0, Destroy 0 0, Deallocate 0 10, Construct 2 1]\<rparr>,
          \<lparr>m_first = Addr 2 0, m_second = Addr 2 2, m_capacity = 4\<rparr>) \<and>
   copy_assign 0 \<lparr>m_first = Addr 1 0, m_second = Addr 1 2, m_capacity = 4\<rparr>
       \<lparr>blocks = [Block [Some (1::nat), None, None, None, None, None, None, None, None, None],
                   Block [Some 4, Some 5, None, None]],
          budget = 8, trace = []\<rparr>
       \<lparr>m_first = Addr 0 0, m_second = Addr 0 1, m_capacity = 10\<rparr> =
     Inl No_return"
proof -
  have "copy_assign dflt right h c \<noteq> Inr (h', c')"
    by (simp add: copy_assign_def split: sum.splits prod.splits)
  moreover have b: "copy_assign_body 0 \<lparr>m_first = Addr 1 0, m_second = Addr 1 2, m_capacity = 4\<rparr>
       \<lparr>blocks = [Block [Some (1::nat), None, None, None, None, None, None, None, None, None],
                   Block [Some 4, Some 5, None, None]],
          budget = 8, trace = []\<rparr>
       \<lparr>m_first = Addr 0 0, m_second = Addr 0 1, m_capacity = 10\<rparr> =
     Inr (\<lparr>blocks = [Released, Block [Some 4, Some 5, None, None],
                      Block [Some 4, Some 5, None, None]],
            budget = 14,
            trace = [Allocate 2 4, Construct 2 0, Destroy 0 0, Deallocate 0 10, Construct 2 1]\<rparr>,
          \<lparr>m_first = Addr 2 0, m_second = Addr 2 2, m_capacity = 4\<rparr>)"
    by (simp add: run_simps)
  moreover have "copy_assign 0 \<lparr>m_first = Addr 1 0, m_second = Addr 1 2, m_capacity = 4\<rparr>
       \<lparr>blocks = [Block [Some (1::nat), None, None, None, None, None, None, None, None, None],
                   Block [Some 4, Some 5, None, None]],
          budget = 8, trace = []\<rparr>
       \<lparr>m_first = Addr 0 0, m_second = Addr 0 1, m_capacity = 10\<rparr> =
     Inl No_return"
    unfolding copy_assign_def b by simp
  ultimately show ?thesis by (intro conjI)
qed

section \<open>The range constructor\<close>

text \<open>
  C5, as the code has it. For a range of \<open>n\<close> values, with \<open>2 * n\<close> in the range of the
  signed difference type and that many slots left, the range constructor allocates a
  block of \<open>2 * n\<close> slots, as the sized and the initializer-list constructors do, and
  copy-constructs the \<open>n\<close> values into its first \<open>n\<close> slots in order: the container it
  builds is in the valid state, holds exactly the range, and has \<^verbatim>\<open>size()\<close> \<open>= n\<close>.
\<close>

theorem range_ctor_copies_range:
  assumes "2 * length xs < 2 ^ 63" and "2 * length xs \<le> budget h"
  shows "\<exists>h' c.
    range_ctor xs h = Inr (h', c) \<and>
    holds h' c xs \<and> size_c c = Some (length xs) \<and>
    m_first c = Addr (length (blocks h)) 0 \<and>
    cells h' (length (blocks h)) = Some (map Some xs @ replicate (length xs) None) \<and>
    trace h' = trace h @ Allocate (length (blocks h)) (2 * length xs) #
      map (Construct (length (blocks h))) [0..<length xs]"
proof -
  let ?n = "length xs" and ?b = "length (blocks h)"
  let ?h1 = "h\<lparr>blocks := blocks h @ [Block (replicate (2 * ?n) None)],
               budget := budget h - 2 * ?n,
               trace := trace h @ [Allocate ?b (2 * ?n)]\<rparr>"
  have a: "allocate (2 * ?n) h = Inr (?h1, Addr ?b 0)"
    using assms(2) by (simp add: allocate_def)
  have c1: "cells ?h1 ?b = Some (replicate (2 * ?n) None)"
    using cells_allocate [OF a, of ?b] by simp
  have u: "uninitialized_copy_values xs (Addr ?b 0) ?h1 =
     Inr (?h1\<lparr>blocks := (blocks ?h1)[?b := Block (map Some xs @ replicate ?n None)],
              trace := trace ?h1 @ map (Construct ?b) [0..<?n]\<rparr>,
          Addr ?b ?n)"
    using uninitialized_copy_values_ok [OF c1, of 0 xs] by simp
  let ?h2 = "?h1\<lparr>blocks := (blocks ?h1)[?b := Block (map Some xs @ replicate ?n None)],
               trace := trace ?h1 @ map (Construct ?b) [0..<?n]\<rparr>"
  let ?c = "\<lparr>m_first = Addr ?b 0, m_second = Addr ?b ?n, m_capacity = ?n\<rparr>"
  have r: "range_ctor xs h = Inr (?h2, ?c)"
    using assms(1) a u by (simp add: range_ctor_def twice_distance_def mult.commute)
  have c2: "cells ?h2 ?b = Some (map Some xs @ replicate ?n None)"
    by (simp add: cells_def)
  have "holds ?h2 ?c xs"
    using c2 by (simp add: holds_def elements_def those_map_Some)
  with r c2 show ?thesis
    by (simp add: size_c_def)
qed

theorem range_ctor_copies_range_witness:
  "2 * length [1, 2, 3 :: nat] < (2::nat) ^ 63 \<and>
   2 * length [1, 2, 3 :: nat] \<le> budget \<lparr>blocks = [], budget = 8, trace = []\<rparr> \<and>
   range_ctor [1, 2, 3 :: nat] \<lparr>blocks = [], budget = 8, trace = []\<rparr> =
     Inr (\<lparr>blocks = [Block [Some 1, Some 2, Some 3, None, None, None]], budget = 2,
            trace = [Allocate 0 6, Construct 0 0, Construct 0 1, Construct 0 2]\<rparr>,
          \<lparr>m_first = Addr 0 0, m_second = Addr 0 3, m_capacity = 3\<rparr>) \<and>
   holds \<lparr>blocks = [Block [Some (1::nat), Some 2, Some 3, None, None, None]], budget = 2,
          trace = [Allocate 0 6, Construct 0 0, Construct 0 1, Construct 0 2]\<rparr>
     \<lparr>m_first = Addr 0 0, m_second = Addr 0 3, m_capacity = 3\<rparr> [1, 2, 3] \<and>
   size_c \<lparr>m_first = Addr 0 0, m_second = Addr 0 3, m_capacity = 3\<rparr> = Some 3"
proof -
  let ?h0 = "\<lparr>blocks = [], budget = 8, trace = []\<rparr> :: nat heap"
  have p: "2 * length [1, 2, 3 :: nat] < (2::nat) ^ 63" "2 * length [1, 2, 3 :: nat] \<le> budget ?h0"
    by simp_all
  from range_ctor_copies_range [OF p] obtain h' c where
    r: "range_ctor [1, 2, 3] ?h0 = Inr (h', c)" and
    h: "holds h' c [1, 2, 3]" and s: "size_c c = Some (length [1, 2, 3 :: nat])"
    by blast
  have e: "range_ctor [1, 2, 3] ?h0 =
     Inr (\<lparr>blocks = [Block [Some 1, Some 2, Some 3, None, None, None]], budget = 2,
            trace = [Allocate 0 6, Construct 0 0, Construct 0 1, Construct 0 2]\<rparr>,
          \<lparr>m_first = Addr 0 0, m_second = Addr 0 3, m_capacity = 3\<rparr>)"
    by (simp add: run_simps)
  from r e h s p show ?thesis by simp
qed

text \<open>
  C5, as the claim has it, fails on a range of three values: the block has six slots,
  not three; the capacity recorded is three, not the six allocated; and the destructor
  hands the block back with the count three.
\<close>

theorem range_ctor_capacity_counterexample:
  "range_ctor [1, 2, 3 :: nat] \<lparr>blocks = [], budget = 8, trace = []\<rparr> =
     Inr (\<lparr>blocks = [Block [Some 1, Some 2, Some 3, None, None, None]], budget = 2,
            trace = [Allocate 0 6, Construct 0 0, Construct 0 1, Construct 0 2]\<rparr>,
          \<lparr>m_first = Addr 0 0, m_second = Addr 0 3, m_capacity = 3\<rparr>) \<and>
   slots \<lparr>blocks = [Block [Some (1::nat), Some 2, Some 3, None, None, None]], budget = 2,
          trace = [Allocate 0 6, Construct 0 0, Construct 0 1, Construct 0 2]\<rparr> 0 \<noteq>
     Some (length [1, 2, 3 :: nat]) \<and>
   slots \<lparr>blocks = [Block [Some (1::nat), Some 2, Some 3, None, None, None]], budget = 2,
          trace = [Allocate 0 6, Construct 0 0, Construct 0 1, Construct 0 2]\<rparr> 0 \<noteq>
     Some (m_capacity \<lparr>m_first = Addr 0 0, m_second = Addr 0 3, m_capacity = 3\<rparr>) \<and>
   destructor
       \<lparr>blocks = [Block [Some (1::nat), Some 2, Some 3, None, None, None]], budget = 2,
          trace = [Allocate 0 6, Construct 0 0, Construct 0 1, Construct 0 2]\<rparr>
       \<lparr>m_first = Addr 0 0, m_second = Addr 0 3, m_capacity = 3\<rparr> =
     Inr \<lparr>blocks = [Released], budget = 8,
          trace = [Allocate 0 6, Construct 0 0, Construct 0 1, Construct 0 2,
                   Destroy 0 0, Destroy 0 1, Destroy 0 2, Deallocate 0 3]\<rparr>"
  by (simp add: run_simps slots_def)

section \<open>reserve keeps the elements\<close>

text \<open>
  C6. On a container in the valid state that holds \<open>es\<close>, \<^verbatim>\<open>reserve(k)\<close> with \<open>k\<close> at least
  the size and at most the slots that are left completes, and the container is again in
  the valid state and holds \<open>es\<close>: the same elements in the same order, \<^verbatim>\<open>size()\<close> as
  before. What changes is the block, now a fresh one of \<open>k\<close> slots, and the capacity,
  now \<open>k\<close>; the old block is released.
\<close>

theorem reserve_keeps_elements:
  assumes "holds h c es" and "length es \<le> k" and "k \<le> budget h"
  shows "\<exists>h' c'.
    reserve k h c = Inr (h', c') \<and>
    holds h' c' es \<and> elements h' c' = elements h c \<and> size_c c' = size_c c \<and>
    m_capacity c' = k \<and> slots h' (length (blocks h)) = Some k \<and>
    m_first c' = Addr (length (blocks h)) 0"
proof -
  let ?nb = "length (blocks h)"
  let ?c' = "\<lparr>m_first = Addr ?nb 0, m_second = Addr ?nb (length es), m_capacity = k\<rparr>"
  from reserve_cells [OF assms] obtain h' b where
    f: "m_first c = Addr b 0" and
    r: "reserve k h c = Inr (h', ?c')" and
    c': "cells h' = (cells h)(b := None,
      ?nb \<mapsto> map Some es @ replicate (k - length es) None)"
    by blast
  have n: "cells h' ?nb = Some (map Some es @ replicate (k - length es) None)"
    by (simp add: c')
  have "length es \<le> length (map Some es @ replicate (k - length es) None)"
    by simp
  moreover have "take (length es) (map Some es @ replicate (k - length es) None) = map Some es"
    by simp
  ultimately have h: "holds h' ?c' es"
    by (intro holdsI [OF _ _ n]) simp_all
  from holdsD [OF assms(1)] have s: "size_c c = Some (length es)"
    by (auto simp: size_c_def)
  from assms(1) f have e: "elements h c = Some es"
    by (simp add: holds_def)
  from h have e': "elements h' ?c' = Some es"
    by (simp add: holds_def)
  from r h e e' s n assms(2) show ?thesis
    by (simp add: size_c_def slots_def)
qed

theorem reserve_keeps_elements_witness:
  "holds \<lparr>blocks = [Block [Some (1::nat), Some 2, Some 3, None, None, None]], budget = 8,
          trace = []\<rparr>
     \<lparr>m_first = Addr 0 0, m_second = Addr 0 3, m_capacity = 3\<rparr> [1, 2, 3] \<and>
   reserve 4
       \<lparr>blocks = [Block [Some (1::nat), Some 2, Some 3, None, None, None]], budget = 8,
          trace = []\<rparr>
       \<lparr>m_first = Addr 0 0, m_second = Addr 0 3, m_capacity = 3\<rparr> =
     Inr (\<lparr>blocks = [Released, Block [Some 1, Some 2, Some 3, None]], budget = 10,
            trace = [Allocate 1 4, Construct 1 0, Construct 1 1, Construct 1 2,
                     Destroy 0 0, Destroy 0 1, Destroy 0 2, Deallocate 0 3]\<rparr>,
          \<lparr>m_first = Addr 1 0, m_second = Addr 1 3, m_capacity = 4\<rparr>) \<and>
   holds \<lparr>blocks = [Released, Block [Some (1::nat), Some 2, Some 3, None]], budget = 10,
          trace = [Allocate 1 4, Construct 1 0, Construct 1 1, Construct 1 2,
                   Destroy 0 0, Destroy 0 1, Destroy 0 2, Deallocate 0 3]\<rparr>
     \<lparr>m_first = Addr 1 0, m_second = Addr 1 3, m_capacity = 4\<rparr> [1, 2, 3]"
proof -
  let ?h = "\<lparr>blocks = [Block [Some (1::nat), Some 2, Some 3, None, None, None]], budget = 8,
             trace = []\<rparr>"
  let ?c = "\<lparr>m_first = Addr 0 0, m_second = Addr 0 3, m_capacity = 3\<rparr>"
  have p: "holds ?h ?c [1, 2, 3]" "length [1, 2, 3 :: nat] \<le> 4" "4 \<le> budget ?h"
    by (simp_all add: holds_def elements_def cells_def)
  from reserve_keeps_elements [OF p] obtain h' c' where
    r: "reserve 4 ?h ?c = Inr (h', c')" and h: "holds h' c' [1, 2, 3]"
    by blast
  have e: "reserve 4 ?h ?c =
     Inr (\<lparr>blocks = [Released, Block [Some 1, Some 2, Some 3, None]], budget = 10,
            trace = [Allocate 1 4, Construct 1 0, Construct 1 1, Construct 1 2,
                     Destroy 0 0, Destroy 0 1, Destroy 0 2, Deallocate 0 3]\<rparr>,
          \<lparr>m_first = Addr 1 0, m_second = Addr 1 3, m_capacity = 4\<rparr>)"
    by (simp add: run_simps)
  from r e h p(1) show ?thesis by simp
qed

section \<open>The capacity invariant\<close>

text \<open>
  C7 fails on the code, for the two assignments. \<^verbatim>\<open>begin \<le> end \<le> begin + capacity\<close>, that
  is \<^verbatim>\<open>size() \<le> capacity\<close> for a container that has not been moved from, holds for the
  container that each constructor builds and for the container that \<^verbatim>\<open>reserve\<close> and
  \<^verbatim>\<open>resize\<close> leave, whenever the operation completes; the move constructor keeps the
  pointers and the capacity it finds, so there the invariant is taken from the source.
  The statements of either assignment keep the invariant as well, but neither assignment
  has a return statement: no call of either returns, so neither leaves a container of
  which the invariant could hold.
\<close>

theorem capacity_at_least_size_but_assignment:
  "(default_ctor h = Inr (h', c') \<longrightarrow> invariant c') \<and>
   (sized_ctor n v h = Inr (h', c') \<longrightarrow> invariant c') \<and>
   (range_ctor xs h = Inr (h', c') \<longrightarrow> invariant c') \<and>
   (copy_ctor right h = Inr (h', c') \<longrightarrow> invariant c') \<and>
   (invariant right \<longrightarrow> invariant (fst (move_ctor right))) \<and>
   (init_list_ctor xs h = Inr (h', c') \<longrightarrow> invariant c') \<and>
   (reserve k h c = Inr (h', c') \<longrightarrow> invariant c') \<and>
   (resize n v h c = Inr (h', c') \<longrightarrow> invariant c') \<and>
   (invariant c \<and> copy_assign_body v right h c = Inr (h', c') \<longrightarrow> invariant c') \<and>
   (invariant right \<longrightarrow> invariant (fst (move_assign_body right c))) \<and>
   copy_assign v right h c \<noteq> Inr (h', c') \<and>
   move_assign right c = Inl No_return"
proof (intro conjI impI)
  show "invariant c'" if "default_ctor h = Inr (h', c')"
    using that by (rule invariant_default_ctor)
  show "invariant c'" if "sized_ctor n v h = Inr (h', c')"
    using that by (rule invariant_sized_ctor)
  show "invariant c'" if "range_ctor xs h = Inr (h', c')"
    using that by (rule invariant_range_ctor)
  show "invariant c'" if "copy_ctor right h = Inr (h', c')"
    using that unfolding copy_ctor_def by (rule invariant_range_ctor_ptr)
  show "invariant (fst (move_ctor right))" if "invariant right"
    using that by (rule invariant_move_ctor)
  show "invariant c'" if "init_list_ctor xs h = Inr (h', c')"
    using that by (rule invariant_init_list_ctor)
  show "invariant c'" if "reserve k h c = Inr (h', c')"
    using that by (rule invariant_reserve)
  show "invariant c'" if "resize n v h c = Inr (h', c')"
    using that by (rule invariant_resize)
  show "invariant c'" if "invariant c \<and> copy_assign_body v right h c = Inr (h', c')"
    using that by (auto intro: invariant_copy_assign_body)
  show "invariant (fst (move_assign_body right c))" if "invariant right"
    using that by (rule invariant_move_assign_body)
  show "copy_assign v right h c \<noteq> Inr (h', c')"
    by (simp add: copy_assign_def split: sum.splits prod.splits)
  show "move_assign right c = Inl No_return"
    by (simp add: move_assign_def move_assign_body_def)
qed

theorem capacity_at_least_size_but_assignment_witness:
  "default_ctor \<lparr>blocks = [], budget = 8, trace = []\<rparr> =
     Inr (\<lparr>blocks = [Block [None, None, None, None :: nat option]], budget = 4,
            trace = [Allocate 0 4]\<rparr>,
          \<lparr>m_first = Addr 0 0, m_second = Addr 0 0, m_capacity = 4\<rparr>) \<and>
   invariant \<lparr>m_first = Addr 0 0, m_second = Addr 0 0, m_capacity = 4\<rparr> \<and>
   sized_ctor 1 (7::nat) \<lparr>blocks = [], budget = 8, trace = []\<rparr> =
     Inr (\<lparr>blocks = [Block [Some 7, None]], budget = 6,
            trace = [Allocate 0 2, Construct 0 0]\<rparr>,
          \<lparr>m_first = Addr 0 0, m_second = Addr 0 1, m_capacity = 2\<rparr>) \<and>
   invariant \<lparr>m_first = Addr 0 0, m_second = Addr 0 1, m_capacity = 2\<rparr> \<and>
   range_ctor [5::nat] \<lparr>blocks = [], budget = 8, trace = []\<rparr> =
     Inr (\<lparr>blocks = [Block [Some 5, None]], budget = 6,
            trace = [Allocate 0 2, Construct 0 0]\<rparr>,
          \<lparr>m_first = Addr 0 0, m_second = Addr 0 1, m_capacity = 1\<rparr>) \<and>
   invariant \<lparr>m_first = Addr 0 0, m_second = Addr 0 1, m_capacity = 1\<rparr> \<and>
   copy_ctor \<lparr>m_first = Addr 0 0, m_second = Addr 0 1, m_capacity = 2\<rparr>
       \<lparr>blocks = [Block [Some (5::nat), None]], budget = 6, trace = []\<rparr> =
     Inr (\<lparr>blocks = [Block [Some 5, None], Block [Some 5, None]], budget = 4,
            trace = [Allocate 1 2, Construct 1 0]\<rparr>,
          \<lparr>m_first = Addr 1 0, m_second = Addr 1 1, m_capacity = 1\<rparr>) \<and>
   invariant \<lparr>m_first = Addr 1 0, m_second = Addr 1 1, m_capacity = 1\<rparr> \<and>
   invariant (fst (move_ctor \<lparr>m_first = Addr 0 0, m_second = Addr 0 1, m_capacity = 2\<rparr>)) \<and>
   reserve 1 \<lparr>blocks = [Block [Some (5::nat), None]], budget = 6, trace = []\<rparr>
       \<lparr>m_first = Addr 0 0, m_second = Addr 0 1, m_capacity = 2\<rparr> =
     Inr (\<lparr>blocks = [Released, Block [Some 5]], budget = 7,
            trace = [Allocate 1 1, Construct 1 0, Destroy 0 0, Deallocate 0 2]\<rparr>,
          \<lparr>m_first = Addr 1 0, m_second = Addr 1 1, m_capacity = 1\<rparr>) \<and>
   invariant \<lparr>m_first = Addr 1 0, m_second = Addr 1 1, m_capacity = 1\<rparr> \<and>
   resize 1 9 \<lparr>blocks = [Block [Some (5::nat), None]], budget = 6, trace = []\<rparr>
       \<lparr>m_first = Addr 0 0, m_second = Addr 0 1, m_capacity = 2\<rparr> =
     Inr (\<lparr>blocks = [Released, Block [None, None]], budget = 6,
            trace = [Allocate 1 2, Construct 1 0, Destroy 0 0, Deallocate 0 2, Destroy 1 0]\<rparr>,
          \<lparr>m_first = Addr 1 0, m_second = Addr 1 1, m_capacity = 2\<rparr>) \<and>
   invariant \<lparr>m_first = Addr 1 0, m_second = Addr 1 1, m_capacity = 2\<rparr> \<and>
   copy_assign_body 0 \<lparr>m_first = Addr 0 0, m_second = Addr 0 1, m_capacity = 2\<rparr>
       \<lparr>blocks = [Block [Some (5::nat), None], Block [None, None, None, None]], budget = 2,
          trace = []\<rparr>
       \<lparr>m_first = Addr 1 0, m_second = Addr 1 0, m_capacity = 4\<rparr> =
     Inr (\<lparr>blocks = [Block [Some 5, None], Released, Block [Some 5, None]], budget = 4,
            trace = [Allocate 2 2, Deallocate 1 4, Construct 2 0]\<rparr>,
          \<lparr>m_first = Addr 2 0, m_second = Addr 2 1, m_capacity = 2\<rparr>) \<and>
   invariant \<lparr>m_first = Addr 2 0, m_second = Addr 2 1, m_capacity = 2\<rparr> \<and>
   invariant (fst (move_assign_body \<lparr>m_first = Addr 0 0, m_second = Addr 0 1, m_capacity = 2\<rparr>
       \<lparr>m_first = Addr 1 0, m_second = Addr 1 0, m_capacity = 4\<rparr>)) \<and>
   copy_assign 0 \<lparr>m_first = Addr 0 0, m_second = Addr 0 1, m_capacity = 2\<rparr>
       \<lparr>blocks = [Block [Some (5::nat), None], Block [None, None, None, None]], budget = 2,
          trace = []\<rparr>
       \<lparr>m_first = Addr 1 0, m_second = Addr 1 0, m_capacity = 4\<rparr> =
     Inl No_return \<and>
   move_assign \<lparr>m_first = Addr 0 0, m_second = Addr 0 1, m_capacity = 2\<rparr>
       \<lparr>m_first = Addr 1 0, m_second = Addr 1 0, m_capacity = 4\<rparr> =
     Inl No_return"
proof -
  let ?h0 = "\<lparr>blocks = [], budget = 8, trace = []\<rparr> :: nat heap"
  let ?hi = "\<lparr>blocks = [Block [Some (5::nat), None]], budget = 6, trace = []\<rparr>"
  let ?ci = "\<lparr>m_first = Addr 0 0, m_second = Addr 0 1, m_capacity = 2\<rparr>"
  let ?hd = "\<lparr>blocks = [Block [Some (5::nat), None], Block [None, None, None, None]],
              budget = 2, trace = []\<rparr>"
  let ?cd = "\<lparr>m_first = Addr 1 0, m_second = Addr 1 0, m_capacity = 4\<rparr>"
  have i: "invariant ?ci" and d: "invariant ?cd"
    by (simp_all add: invariant_def size_c_def)
  have 1: "default_ctor ?h0 =
     Inr (\<lparr>blocks = [Block [None, None, None, None]], budget = 4, trace = [Allocate 0 4]\<rparr>,
          \<lparr>m_first = Addr 0 0, m_second = Addr 0 0, m_capacity = 4\<rparr>)"
    by (simp add: run_simps)
  have 2: "sized_ctor 1 7 ?h0 =
     Inr (\<lparr>blocks = [Block [Some 7, None]], budget = 6, trace = [Allocate 0 2, Construct 0 0]\<rparr>,
          \<lparr>m_first = Addr 0 0, m_second = Addr 0 1, m_capacity = 2\<rparr>)"
    by (simp add: run_simps)
  have 3: "range_ctor [5] ?h0 =
     Inr (\<lparr>blocks = [Block [Some 5, None]], budget = 6, trace = [Allocate 0 2, Construct 0 0]\<rparr>,
          \<lparr>m_first = Addr 0 0, m_second = Addr 0 1, m_capacity = 1\<rparr>)"
    by (simp add: run_simps)
  have 4: "copy_ctor ?ci ?hi =
     Inr (\<lparr>blocks = [Block [Some 5, None], Block [Some 5, None]], budget = 4,
            trace = [Allocate 1 2, Construct 1 0]\<rparr>,
          \<lparr>m_first = Addr 1 0, m_second = Addr 1 1, m_capacity = 1\<rparr>)"
    by (simp add: run_simps)
  have 7: "reserve 1 ?hi ?ci =
     Inr (\<lparr>blocks = [Released, Block [Some 5]], budget = 7,
            trace = [Allocate 1 1, Construct 1 0, Destroy 0 0, Deallocate 0 2]\<rparr>,
          \<lparr>m_first = Addr 1 0, m_second = Addr 1 1, m_capacity = 1\<rparr>)"
    by (simp add: run_simps)
  have 8: "resize 1 9 ?hi ?ci =
     Inr (\<lparr>blocks = [Released, Block [None, None]], budget = 6,
            trace = [Allocate 1 2, Construct 1 0, Destroy 0 0, Deallocate 0 2, Destroy 1 0]\<rparr>,
          \<lparr>m_first = Addr 1 0, m_second = Addr 1 1, m_capacity = 2\<rparr>)"
    by (simp add: run_simps)
  have 9: "copy_assign_body 0 ?ci ?hd ?cd =
     Inr (\<lparr>blocks = [Block [Some 5, None], Released, Block [Some 5, None]], budget = 4,
            trace = [Allocate 2 2, Deallocate 1 4, Construct 2 0]\<rparr>,
          \<lparr>m_first = Addr 2 0, m_second = Addr 2 1, m_capacity = 2\<rparr>)"
    by (simp add: run_simps)
  have 11: "copy_assign 0 ?ci ?hd ?cd = Inl No_return"
    unfolding copy_assign_def 9 by simp
  note t = capacity_at_least_size_but_assignment
  note a1 = t [THEN conjunct1, rule_format, OF 1]
  note a2 = t [THEN conjunct2, THEN conjunct1, rule_format, OF 2]
  note a3 = t [THEN conjunct2, THEN conjunct2, THEN conjunct1, rule_format, OF 3]
  note a4 = t [THEN conjunct2, THEN conjunct2, THEN conjunct2, THEN conjunct1, rule_format, OF 4]
  note r = t [THEN conjunct2, THEN conjunct2, THEN conjunct2, THEN conjunct2]
  note a5 = r [THEN conjunct1, rule_format, OF i]
  note a7 = r [THEN conjunct2, THEN conjunct2, THEN conjunct1, rule_format, OF 7]
  note a8 = r [THEN conjunct2, THEN conjunct2, THEN conjunct2, THEN conjunct1, rule_format, OF 8]
  note a9 = r [THEN conjunct2, THEN conjunct2, THEN conjunct2, THEN conjunct2, THEN conjunct1,
      rule_format, OF conjI [OF d 9]]
  note q = r [THEN conjunct2, THEN conjunct2, THEN conjunct2, THEN conjunct2, THEN conjunct2]
  note a10 = q [THEN conjunct1, rule_format, OF i]
  note a12 = q [THEN conjunct2, THEN conjunct2]
  show ?thesis
    by (intro conjI) (rule 1 2 3 4 7 8 9 11 a1 a2 a3 a4 a5 a7 a8 a9 a10 a12)+
qed

section \<open>Allocation failure\<close>

text \<open>
  C8. When \<^verbatim>\<open>allocate\<close> fails, which it does when fewer slots are left than are asked
  for, the constructors, \<^verbatim>\<open>reserve\<close> and \<^verbatim>\<open>resize\<close> end with the out-of-storage exception
  and nothing else has happened: a constructor leaves the heap as it was and builds no
  container, and \<^verbatim>\<open>reserve\<close> and \<^verbatim>\<open>resize\<close> leave the heap and the container as they
  were, since the allocation is their first step. A container that was in the valid
  state is therefore still in it, and its destructor completes.
\<close>

theorem allocation_failure_propagates:
  "(budget h < default_capacity \<longrightarrow> default_ctor h = Inl (Out_of_storage h)) \<and>
   (budget h < twice n \<longrightarrow> sized_ctor n v h = Inl (Out_of_storage h)) \<and>
   (2 * length xs < 2 ^ 63 \<and> budget h < 2 * length xs \<longrightarrow>
      range_ctor xs h = Inl (Out_of_storage h)) \<and>
   (size_c right = Some d \<and> 2 * d < 2 ^ 63 \<and> budget h < 2 * d \<longrightarrow>
      copy_ctor right h = Inl (Out_of_storage h)) \<and>
   (budget h < twice (length xs) \<longrightarrow> init_list_ctor xs h = Inl (Out_of_storage h)) \<and>
   (budget h < k \<longrightarrow> reserve k h c = Inl (Out_of_storage (h, c))) \<and>
   (budget h < twice n \<longrightarrow> resize n v h c = Inl (Out_of_storage (h, c))) \<and>
   (holds h c es \<longrightarrow> (\<exists>h'. destructor h c = Inr h'))"
  by (simp add: default_ctor_def sized_ctor_def range_ctor_def copy_ctor_def range_ctor_ptr_def
      init_list_ctor_def reserve_def resize_def allocate_def twice_distance_def size_c_def
      thrown_in_def mult.commute destructor_completes)

theorem allocation_failure_propagates_witness:
  "budget \<lparr>blocks = [Block [Some (5::nat), None]], budget = 1, trace = []\<rparr> < default_capacity \<and>
   default_ctor \<lparr>blocks = [Block [Some (5::nat), None]], budget = 1, trace = []\<rparr> =
     Inl (Out_of_storage \<lparr>blocks = [Block [Some 5, None]], budget = 1, trace = []\<rparr>) \<and>
   sized_ctor 1 7 \<lparr>blocks = [Block [Some (5::nat), None]], budget = 1, trace = []\<rparr> =
     Inl (Out_of_storage \<lparr>blocks = [Block [Some 5, None]], budget = 1, trace = []\<rparr>) \<and>
   range_ctor [7] \<lparr>blocks = [Block [Some (5::nat), None]], budget = 1, trace = []\<rparr> =
     Inl (Out_of_storage \<lparr>blocks = [Block [Some 5, None]], budget = 1, trace = []\<rparr>) \<and>
   copy_ctor \<lparr>m_first = Addr 0 0, m_second = Addr 0 1, m_capacity = 2\<rparr>
       \<lparr>blocks = [Block [Some (5::nat), None]], budget = 1, trace = []\<rparr> =
     Inl (Out_of_storage \<lparr>blocks = [Block [Some 5, None]], budget = 1, trace = []\<rparr>) \<and>
   init_list_ctor [7] \<lparr>blocks = [Block [Some (5::nat), None]], budget = 1, trace = []\<rparr> =
     Inl (Out_of_storage \<lparr>blocks = [Block [Some 5, None]], budget = 1, trace = []\<rparr>) \<and>
   reserve 2 \<lparr>blocks = [Block [Some (5::nat), None]], budget = 1, trace = []\<rparr>
       \<lparr>m_first = Addr 0 0, m_second = Addr 0 1, m_capacity = 2\<rparr> =
     Inl (Out_of_storage (\<lparr>blocks = [Block [Some 5, None]], budget = 1, trace = []\<rparr>,
                          \<lparr>m_first = Addr 0 0, m_second = Addr 0 1, m_capacity = 2\<rparr>)) \<and>
   resize 1 7 \<lparr>blocks = [Block [Some (5::nat), None]], budget = 1, trace = []\<rparr>
       \<lparr>m_first = Addr 0 0, m_second = Addr 0 1, m_capacity = 2\<rparr> =
     Inl (Out_of_storage (\<lparr>blocks = [Block [Some 5, None]], budget = 1, trace = []\<rparr>,
                          \<lparr>m_first = Addr 0 0, m_second = Addr 0 1, m_capacity = 2\<rparr>)) \<and>
   holds \<lparr>blocks = [Block [Some (5::nat), None]], budget = 1, trace = []\<rparr>
     \<lparr>m_first = Addr 0 0, m_second = Addr 0 1, m_capacity = 2\<rparr> [5] \<and>
   destructor \<lparr>blocks = [Block [Some (5::nat), None]], budget = 1, trace = []\<rparr>
       \<lparr>m_first = Addr 0 0, m_second = Addr 0 1, m_capacity = 2\<rparr> =
     Inr \<lparr>blocks = [Released], budget = 3, trace = [Destroy 0 0, Deallocate 0 2]\<rparr>"
proof -
  let ?h = "\<lparr>blocks = [Block [Some (5::nat), None]], budget = 1, trace = []\<rparr>"
  let ?c = "\<lparr>m_first = Addr 0 0, m_second = Addr 0 1, m_capacity = 2\<rparr>"
  have v: "holds ?h ?c [5]"
    by (simp add: holds_def elements_def cells_def)
  have d: "destructor ?h ?c =
     Inr \<lparr>blocks = [Released], budget = 3, trace = [Destroy 0 0, Deallocate 0 2]\<rparr>"
    by (simp add: run_simps)
  from v d allocation_failure_propagates
    [where h = ?h and n = 1 and v = 7 and xs = "[7]" and d = 1 and k = 2
       and right = ?c and c = ?c and es = "[5]"]
  show ?thesis
    by (simp add: default_capacity_def twice_def size_c_def)
qed

section \<open>The sized constructor at size 0\<close>

text \<open>
  C10. \<^verbatim>\<open>ExpandableArray(0, value)\<close> allocates a block of zero slots, not of the default
  capacity: the container it builds is in the valid state and empty, \<^verbatim>\<open>size()\<close> and the
  capacity are 0, and its destructor destroys nothing and hands the zero-slot block back
  with the count 0.
\<close>

theorem sized_ctor_zero:
  "\<exists>h1 c h2.
     sized_ctor 0 v h = Inr (h1, c) \<and>
     holds h1 c [] \<and> size_c c = Some 0 \<and> m_capacity c = 0 \<and>
     m_first c = Addr (length (blocks h)) 0 \<and>
     cells h1 (length (blocks h)) = Some [] \<and>
     trace h1 = trace h @ [Allocate (length (blocks h)) 0] \<and>
     destructor h1 c = Inr h2 \<and>
     trace h2 = trace h1 @ [Deallocate (length (blocks h)) 0] \<and>
     cells h2 (length (blocks h)) = None"
  by (simp add: sized_ctor_def allocate_def twice_def holds_def elements_def size_c_def
      destructor_def cells_def nth_append uninitialized_fill.simps destroy_range.simps)

theorem sized_ctor_zero_witness:
  "sized_ctor 0 (7::nat) \<lparr>blocks = [], budget = 0, trace = []\<rparr> =
     Inr (\<lparr>blocks = [Block []], budget = 0, trace = [Allocate 0 0]\<rparr>,
          \<lparr>m_first = Addr 0 0, m_second = Addr 0 0, m_capacity = 0\<rparr>) \<and>
   destructor \<lparr>blocks = [Block []], budget = 0, trace = [Allocate 0 0]\<rparr>
       \<lparr>m_first = Addr 0 0, m_second = Addr 0 0, m_capacity = 0\<rparr> =
     Inr \<lparr>blocks = [Released], budget = 0, trace = [Allocate 0 0, Deallocate 0 0]\<rparr>"
  using sized_ctor_zero [of "7::nat" "\<lparr>blocks = [], budget = 0, trace = []\<rparr>"]
  by (simp add: sized_ctor_def allocate_def twice_def destructor_def cells_def
      uninitialized_fill.simps destroy_range.simps)

end
